theory Spec2Isabelle
  imports Complex_Main
begin

section \<open>JavaScript strings\<close>

text \<open>
  A JavaScript string is a sequence of UTF-16 code units, and every string operation the
  ranking engine uses (\<^verbatim>\<open>toLowerCase\<close>, \<^verbatim>\<open>replace\<close> and \<^verbatim>\<open>split\<close> with
  regular expressions that carry no \<^verbatim>\<open>u\<close> flag, \<^verbatim>\<open>length\<close>) works on code units.
  A string is therefore a list of code units, each a natural number below \<open>65536\<close>; HOL's
  own \<open>string\<close> has 8-bit characters and could not hold Hangul. \<open>js\<close> writes an ASCII
  literal as such a list.
\<close>

type_synonym jsstring = "nat list"

definition js :: "string \<Rightarrow> jsstring" where
  "js s = map of_char s"

definition is_upper :: "nat \<Rightarrow> bool" where
  "is_upper c = (65 \<le> c \<and> c \<le> 90)"

definition is_lower :: "nat \<Rightarrow> bool" where
  "is_lower c = (97 \<le> c \<and> c \<le> 122)"

definition is_digit :: "nat \<Rightarrow> bool" where
  "is_digit c = (48 \<le> c \<and> c \<le> 57)"

text \<open>The class \<^verbatim>\<open>\w\<close> of a regular expression: \<^verbatim>\<open>[A-Za-z0-9_]\<close>.\<close>

definition is_word :: "nat \<Rightarrow> bool" where
  "is_word c = (is_upper c \<or> is_lower c \<or> is_digit c \<or> c = 95)"

text \<open>
  The class \<^verbatim>\<open>\s\<close>: tab, line feed, vertical tab, form feed, carriage return, space,
  no-break space, U+1680, U+2000 to U+200A, U+2028, U+2029, U+202F, U+205F, U+3000 and
  U+FEFF.
\<close>

definition is_space :: "nat \<Rightarrow> bool" where
  "is_space c = ((9 \<le> c \<and> c \<le> 13) \<or> c = 32 \<or> c = 160 \<or> c = 5760
     \<or> (8192 \<le> c \<and> c \<le> 8202) \<or> c = 8232 \<or> c = 8233 \<or> c = 8239 \<or> c = 8287
     \<or> c = 12288 \<or> c = 65279)"

text \<open>What the claims call the ASCII word characters of a token: \<^verbatim>\<open>[a-z0-9_]\<close>.\<close>

definition is_token_char :: "nat \<Rightarrow> bool" where
  "is_token_char c = (is_lower c \<or> is_digit c \<or> c = 95)"

text \<open>
  Hangul: the Jamo block (U+1100 to U+11FF), the compatibility Jamo (U+3130 to U+318F),
  Jamo Extended-A (U+A960 to U+A97F), the syllables (U+AC00 to U+D7A3), Jamo Extended-B
  (U+D7B0 to U+D7FF) and the half-width forms (U+FFA0 to U+FFDC).
\<close>

definition is_hangul :: "nat \<Rightarrow> bool" where
  "is_hangul c = ((4352 \<le> c \<and> c \<le> 4607) \<or> (12592 \<le> c \<and> c \<le> 12687)
     \<or> (43360 \<le> c \<and> c \<le> 43391) \<or> (44032 \<le> c \<and> c \<le> 55203)
     \<or> (55216 \<le> c \<and> c \<le> 55295) \<or> (65440 \<le> c \<and> c \<le> 65500))"

text \<open>
  \<^verbatim>\<open>String.prototype.toLowerCase\<close>, as far as tokenisation can see it. \<^verbatim>\<open>A\<close> to
  \<^verbatim>\<open>Z\<close> become \<^verbatim>\<open>a\<close> to \<^verbatim>\<open>z\<close>. Two code units outside ASCII have a lower case
  that contains an ASCII letter: the Kelvin sign U+212A becomes \<^verbatim>\<open>k\<close>, and U+0130
  becomes \<^verbatim>\<open>i\<close> followed by the combining dot U+0307. Every other code unit outside
  ASCII is kept: its lower case is again outside ASCII and is white space exactly when the
  unit itself is (white space has no case), so the \<^verbatim>\<open>replace\<close> and \<^verbatim>\<open>split\<close> that follow
  treat both alike.
\<close>

definition lower_unit :: "nat \<Rightarrow> jsstring" where
  "lower_unit c =
     (if is_upper c then [c + 32]
      else if c = 8490 then [107]
      else if c = 304 then [105, 775]
      else [c])"

definition toLowerCase :: "jsstring \<Rightarrow> jsstring" where
  "toLowerCase s = concat (map lower_unit s)"

text \<open>\<^verbatim>\<open>.replace(/[^\w\s]/g, ' ')\<close>\<close>

definition replace_nonword :: "jsstring \<Rightarrow> jsstring" where
  "replace_nonword s = map (\<lambda>c. if is_word c \<or> is_space c then c else 32) s"

text \<open>
  \<^verbatim>\<open>.split(/\s+/)\<close>: the pieces between the maximal runs of white space. A run at the
  start or at the end of the string leaves an empty piece there, and the empty string
  splits into one empty piece. The result is never empty (lemma \<open>split_ws_nonempty\<close>),
  so the first case of the inner \<open>case\<close> on the recursive call never applies.
\<close>

fun split_ws :: "jsstring \<Rightarrow> jsstring list" where
  "split_ws [] = [Nil]"
| "split_ws (c # cs) =
     (if is_space c then
        (case cs of
           [] \<Rightarrow> [Nil, Nil]
         | d # ds \<Rightarrow> if is_space d then split_ws cs else [] # split_ws cs)
      else
        (case split_ws cs of
           [] \<Rightarrow> [c # Nil]
         | f # fs \<Rightarrow> (c # f) # fs))"

section \<open>The ranking engine: tokenizer\<close>

text \<open>
  \<^verbatim>\<open>
  private tokenize(text: string): string[] {
    return text
      .toLowerCase()
      .replace(/[^\w\s]/g, ' ')
      .split(/\s+/)
      .filter((token) => token.length > 0);
  }
  \<close>
\<close>

definition tokenize :: "jsstring \<Rightarrow> jsstring list" where
  "tokenize text =
     filter (\<lambda>token. length token > 0) (split_ws (replace_nonword (toLowerCase text)))"

section \<open>The ranking engine: index\<close>

text \<open>
  The documents handed to the ranking engine carry a title and a content. A JavaScript
  number is modelled as a real, so the arithmetic of the scores is exact. Token counts,
  term counts and document counts are natural numbers. Where JavaScript divides by zero
  it yields \<^verbatim>\<open>Infinity\<close> or \<^verbatim>\<open>NaN\<close> and HOL yields \<open>0\<close>; the places where the engine
  divides are named below, with what keeps the divisor away from zero.
\<close>

record CrawledDocument =
  title :: jsstring
  content :: jsstring

text \<open>
  The hyper-parameters. The constructor takes a partial configuration, a missing field
  gets its default: \<^verbatim>\<open>k1: config.k1 ?? 1.5, b: config.b ?? 0.75\<close>.
\<close>

record BM25Config =
  k1 :: real
  b :: real

record PartialBM25Config =
  k1_opt :: "real option"
  b_opt :: "real option"

text \<open>
  The fields of the class. Each \<^verbatim>\<open>Map\<close> is a partial function from its key; the maps
  are only read by key and never iterated, so their insertion order does not matter.
\<close>

record BM25Service =
  documents :: "CrawledDocument list"
  config :: BM25Config
  avgDocLength :: real
  docLengths :: "jsstring \<rightharpoonup> nat"
  termFrequencies :: "jsstring \<rightharpoonup> (jsstring \<rightharpoonup> nat)"
  documentCntsHasTerm :: "jsstring \<rightharpoonup> nat"
  idfCache :: "jsstring \<rightharpoonup> real"

text \<open>
  The term frequencies of one document:
  \<^verbatim>\<open>for (const token of tokens) termFreq.set(token, (termFreq.get(token) ?? 0) + 1)\<close>
\<close>

definition count_terms :: "jsstring list \<Rightarrow> (jsstring \<rightharpoonup> nat)" where
  "count_terms tokens =
     foldl (\<lambda>termFreq token.
              termFreq(token \<mapsto> (case termFreq token of None \<Rightarrow> 0 | Some n \<Rightarrow> n) + 1))
       Map.empty tokens"

text \<open>\<^verbatim>\<open>new Set(tokens)\<close> is iterated in the order of first insertion.\<close>

definition uniqueTerms :: "jsstring list \<Rightarrow> jsstring list" where
  "uniqueTerms tokens = rev (remdups (rev tokens))"

text \<open>
  The document frequencies:
  \<^verbatim>\<open>
  for (const term of uniqueTerms) {
    this.documentCntsHasTerm.set(
      term,
      this.documentCntsHasTerm.get(term) ?? 0 + 1,
    );
  }
  \<close>
  In JavaScript \<^verbatim>\<open>+\<close> binds tighter than \<^verbatim>\<open>??\<close>, so the stored value is
  \<^verbatim>\<open>get(term) ?? (0 + 1)\<close>: the count already there if there is one, and \<open>1\<close> otherwise.
\<close>

definition count_documents :: "(jsstring \<rightharpoonup> nat) \<Rightarrow> jsstring list \<Rightarrow> (jsstring \<rightharpoonup> nat)" where
  "count_documents cnts terms =
     foldl (\<lambda>m term. m(term \<mapsto> (case m term of None \<Rightarrow> 0 + 1 | Some n \<Rightarrow> n))) cnts terms"

text \<open>
  One round of the loop of \<^verbatim>\<open>initialize\<close> over the documents; the state is the running
  \<^verbatim>\<open>totalLength\<close> and the object.
\<close>

definition index_document :: "nat \<times> BM25Service \<Rightarrow> CrawledDocument \<Rightarrow> nat \<times> BM25Service" where
  "index_document st doc =
     (let totalLength = fst st;
          this = snd st;
          tokens = tokenize (content doc);
          docLength = length tokens
      in (totalLength + docLength,
          this\<lparr>docLengths := (docLengths this)(title doc \<mapsto> docLength),
               termFrequencies := (termFrequencies this)(title doc \<mapsto> count_terms tokens),
               documentCntsHasTerm :=
                 count_documents (documentCntsHasTerm this) (uniqueTerms tokens)\<rparr>))"

text \<open>
  \<^verbatim>\<open>this.avgDocLength = totalLength / this.documents.length\<close>. Over an empty collection
  JavaScript computes \<^verbatim>\<open>0 / 0 = NaN\<close>, which nothing reads afterwards: the average is
  read when a document is scored, and there is none.
\<close>

definition initialize :: "BM25Service \<Rightarrow> BM25Service" where
  "initialize this =
     (let st = foldl index_document (0, this) (documents this)
      in (snd st)\<lparr>avgDocLength := real (fst st) / real (length (documents this))\<rparr>)"

definition BM25Service_new :: "CrawledDocument list \<Rightarrow> PartialBM25Config \<Rightarrow> BM25Service" where
  "BM25Service_new docs cfg =
     initialize
       \<lparr>documents = docs,
        config = \<lparr>k1 = (case k1_opt cfg of None \<Rightarrow> 1.5 | Some v \<Rightarrow> v),
                  b = (case b_opt cfg of None \<Rightarrow> 0.75 | Some v \<Rightarrow> v)\<rparr>,
        avgDocLength = 0,
        docLengths = Map.empty,
        termFrequencies = Map.empty,
        documentCntsHasTerm = Map.empty,
        idfCache = Map.empty\<rparr>"

text \<open>The default argument of the constructor: \<^verbatim>\<open>config = { k1: 1.5 }\<close>.\<close>

definition default_config :: PartialBM25Config where
  "default_config = \<lparr>k1_opt = Some 1.5, b_opt = None\<rparr>"

section \<open>The ranking engine: scoring and search\<close>

text \<open>
  \<^verbatim>\<open>calculateIDF\<close> answers from the cache when the term is there, and otherwise computes
  \<^verbatim>\<open>Math.log((N - df + 0.5) / (df + 0.5) + 1)\<close> and stores it. The object is returned
  with the value, since the cache changes. The divisor is at least \<open>0.5\<close>.
\<close>

definition calculateIDF :: "BM25Service \<Rightarrow> jsstring \<Rightarrow> real \<times> BM25Service" where
  "calculateIDF this term =
     (case idfCache this term of
        Some v \<Rightarrow> (v, this)
      | None \<Rightarrow>
          (let N = length (documents this);
               df = (case documentCntsHasTerm this term of None \<Rightarrow> 0 | Some d \<Rightarrow> d);
               idf = ln ((real N - real df + 0.5) / (real df + 0.5) + 1)
           in (idf, this\<lparr>idfCache := (idfCache this)(term \<mapsto> idf)\<rparr>)))"

text \<open>
  The loop of \<^verbatim>\<open>caculateScore\<close> over the query terms, with the running score.
  \<^verbatim>\<open>calculateIDF\<close> changes nothing but the cache, so the hyper-parameters and the
  average length read from the object after the call are those of before. The score
  divides by the average length and by the denominator; the first is positive whenever a
  term of the document is scored (lemma \<open>new_avgDocLength_pos\<close>), the second is then
  positive for \<open>k1 \<ge> 0\<close> and \<open>0 \<le> b \<le> 1\<close>.
\<close>

fun score_terms ::
  "BM25Service \<Rightarrow> (jsstring \<rightharpoonup> nat) \<Rightarrow> nat \<Rightarrow> jsstring list \<Rightarrow> real \<Rightarrow> real \<times> BM25Service" where
  "score_terms this termFreq docLength [] score = (score, this)"
| "score_terms this termFreq docLength (term # rest) score =
     (let tf = (case termFreq term of None \<Rightarrow> 0 | Some n \<Rightarrow> n)
      in if tf = 0 then score_terms this termFreq docLength rest score
         else
           (let r = calculateIDF this term;
                idf = fst r;
                this' = snd r;
                numerator = real tf * (k1 (config this') + 1);
                denominator =
                  real tf + k1 (config this')
                    * (1 - b (config this')
                       + b (config this') * (real docLength / avgDocLength this'))
            in score_terms this' termFreq docLength rest
                 (score + idf * (numerator / denominator))))"

definition caculateScore :: "BM25Service \<Rightarrow> jsstring \<Rightarrow> jsstring list \<Rightarrow> real \<times> BM25Service" where
  "caculateScore this ttl queryTerm =
     (let docLength = (case docLengths this ttl of None \<Rightarrow> 0 | Some n \<Rightarrow> n)
      in case termFrequencies this ttl of
           None \<Rightarrow> (0, this)
         | Some termFreq \<Rightarrow> score_terms this termFreq docLength queryTerm 0)"

record RankedResult =
  document :: CrawledDocument
  score :: real

text \<open>
  \<^verbatim>\<open>this.documents.map((doc) => ({ document: doc, score: this.caculateScore(...) }))\<close>,
  the documents in order, each scoring with the cache the ones before it left.
\<close>

fun score_documents ::
  "BM25Service \<Rightarrow> jsstring list \<Rightarrow> CrawledDocument list \<Rightarrow> RankedResult list \<times> BM25Service" where
  "score_documents this queryTerms [] = ([], this)"
| "score_documents this queryTerms (doc # docs) =
     (let r = caculateScore this (title doc) queryTerms;
          rs = score_documents (snd r) queryTerms docs
      in (\<lparr>document = doc, score = fst r\<rparr> # fst rs, snd rs))"

text \<open>
  \<^verbatim>\<open>Array.prototype.slice(0, end)\<close> for an integer \<^verbatim>\<open>end\<close>: a negative \<^verbatim>\<open>end\<close> counts
  from the end of the array.
\<close>

definition slice0 :: "'a list \<Rightarrow> int \<Rightarrow> 'a list" where
  "slice0 xs e =
     (if e < 0 then take (nat (int (length xs) + e)) xs else take (nat e) xs)"

text \<open>
  \<^verbatim>\<open>
  search(query: string, topK: number = 7) {
    const queryTerms = this.tokenize(query);
    const results = this.documents.map(...);
    return results
      .sort((a, b) => b.score - a.score)
      .slice(0, topK)
      .filter((result) => result.score > 0);
  }
  \<close>
  \<^verbatim>\<open>sort\<close> is stable and the comparator orders by descending score, which is an
  insertion sort on the negated score.
\<close>

definition search :: "BM25Service \<Rightarrow> jsstring \<Rightarrow> int \<Rightarrow> RankedResult list \<times> BM25Service" where
  "search this query topK =
     (let queryTerms = tokenize query;
          r = score_documents this queryTerms (documents this)
      in (filter (\<lambda>result. score result > 0)
            (slice0 (sort_key (\<lambda>result. - score result) (fst r)) topK),
          snd r))"

section \<open>The ranking engine: what the cache and the loops compute\<close>

text \<open>
  Notions used to state and prove the properties of the engine; none of them is code of
  the program. \<open>idf_of\<close> is the value \<^verbatim>\<open>calculateIDF\<close> computes on a cache miss,
  \<open>term_score\<close> is what one query term adds to the score of a document, \<open>pure_score\<close> is
  the score \<^verbatim>\<open>caculateScore\<close> returns when the cache holds nothing but such values
  (\<open>cache_ok\<close>), and \<open>same_index\<close> relates two states of the object that differ in the
  cache only.
\<close>

definition idf_of :: "BM25Service \<Rightarrow> jsstring \<Rightarrow> real" where
  "idf_of this term =
     ln ((real (length (documents this))
            - real (case documentCntsHasTerm this term of None \<Rightarrow> 0 | Some d \<Rightarrow> d) + 0.5)
         / (real (case documentCntsHasTerm this term of None \<Rightarrow> 0 | Some d \<Rightarrow> d) + 0.5) + 1)"

definition term_score :: "BM25Service \<Rightarrow> (jsstring \<rightharpoonup> nat) \<Rightarrow> nat \<Rightarrow> jsstring \<Rightarrow> real" where
  "term_score this termFreq docLength term =
     (let tf = (case termFreq term of None \<Rightarrow> 0 | Some n \<Rightarrow> n)
      in if tf = 0 then 0
         else idf_of this term
              * (real tf * (k1 (config this) + 1)
                 / (real tf + k1 (config this)
                      * (1 - b (config this)
                         + b (config this) * (real docLength / avgDocLength this)))))"

definition pure_score :: "BM25Service \<Rightarrow> jsstring \<Rightarrow> jsstring list \<Rightarrow> real" where
  "pure_score this ttl queryTerm =
     (case termFrequencies this ttl of
        None \<Rightarrow> 0
      | Some termFreq \<Rightarrow>
          sum_list (map (term_score this termFreq
                           (case docLengths this ttl of None \<Rightarrow> 0 | Some n \<Rightarrow> n))
                      queryTerm))"

definition cache_ok :: "BM25Service \<Rightarrow> bool" where
  "cache_ok this = (\<forall>t v. idfCache this t = Some v \<longrightarrow> v = idf_of this t)"

definition same_index :: "BM25Service \<Rightarrow> BM25Service \<Rightarrow> bool" where
  "same_index this this' = (this'\<lparr>idfCache := idfCache this\<rparr> = this)"

section \<open>The crawler and its robots policy cache\<close>

text \<open>
  What a \<^verbatim>\<open>catch\<close> block of the crawler can tell apart in a thrown value: the test is
  \<^verbatim>\<open>error instanceof Error && error.name === 'AbortError'\<close>, which the log messages
  of the source read as a timeout. The other errors are the \<^verbatim>\<open>TypeError\<close> of
  \<^verbatim>\<open>new URL\<close>, the \<^verbatim>\<open>Error\<close> the source throws on a response that is not ok, with
  its status, and any other failure of the request.
\<close>

datatype js_error = AbortError | TypeError | HttpError nat | NetworkError

text \<open>
  \<^verbatim>\<open>fetchWithTimeout\<close> is not part of the sources at hand. A request either throws
  or answers with a response, of which the crawler reads \<^verbatim>\<open>ok\<close>, \<^verbatim>\<open>status\<close> and
  \<^verbatim>\<open>text()\<close>; reading the text can throw as well.
\<close>

datatype response = Response (resp_ok: bool) (resp_status: nat) (resp_text: "js_error + jsstring")

datatype fetch_result = Throws js_error | Responds response

record SearchResult =
  sr_title :: jsstring
  sr_url :: jsstring
  sr_description :: jsstring

record CrawlResult =
  cr_title :: jsstring
  cr_texts :: "jsstring list"

text \<open>
  The world outside the crawler. \<open>net n u\<close> is the outcome of requesting \<open>u\<close> when \<open>n\<close>
  requests have been made before, so that the same address can time out once and answer
  later. \<open>url_parser\<close> gives the \<^verbatim>\<open>origin\<close> of a string that \<^verbatim>\<open>new URL\<close> accepts
  and \<open>None\<close> where it throws. \<open>robots_isAllowed robotsUrl robotsTxt targetUrl userAgent\<close>
  is \<^verbatim>\<open>robotsParser(robotsUrl, robotsTxt).isAllowed(targetUrl, userAgent)\<close>, with \<open>None\<close>
  for \<^verbatim>\<open>undefined\<close>. \<open>select_texts html\<close> is what the HTML parser yields for the
  extraction: the \<^verbatim>\<open>text()\<close> of every element matching \<^verbatim>\<open>SELECTORS\<close> that contains no
  further match, in document order, after the elements matching \<^verbatim>\<open>REMOVE_SELECTORS\<close>
  are removed.
\<close>

record crawl_env =
  net :: "nat \<Rightarrow> jsstring \<Rightarrow> fetch_result"
  url_parser :: "jsstring \<Rightarrow> jsstring option"
  robots_isAllowed :: "jsstring \<Rightarrow> jsstring \<Rightarrow> jsstring \<Rightarrow> jsstring \<Rightarrow> bool option"
  select_texts :: "jsstring \<Rightarrow> jsstring list"

text \<open>
  The state of the service: the entries of \<^verbatim>\<open>robotsCache\<close> and the addresses requested
  so far. The cache is the map of the entries it holds; that it evicts entries beyond
  \<open>1000\<close> and drops entries older than one hour is not modelled, both only remove entries
  between two calls.
\<close>

record crawl_state =
  robotsCache :: "jsstring \<rightharpoonup> bool"
  requests :: "jsstring list"

definition USER_AGENT :: jsstring where
  "USER_AGENT = js ''Mozilla/5.0''"

definition MIN_TEXT_LENGTH :: nat where
  "MIN_TEXT_LENGTH = 30"

text \<open>
  \<^verbatim>\<open>new URL(targetUrl)\<close> followed by \<^verbatim>\<open>url.origin\<close>. A string without a colon has no
  scheme, and \<^verbatim>\<open>new URL\<close> throws a \<^verbatim>\<open>TypeError\<close> on it whatever the platform; every
  other string is left to \<open>url_parser\<close>.
\<close>

definition new_URL_origin :: "crawl_env \<Rightarrow> jsstring \<Rightarrow> jsstring option" where
  "new_URL_origin env targetUrl =
     (if 58 \<notin> set targetUrl then None else url_parser env targetUrl)"

text \<open>
  The \<^verbatim>\<open>try\<close> block of \<^verbatim>\<open>isUrlAllowed\<close>, up to the decision: the request, the check of
  \<^verbatim>\<open>response.ok\<close>, the text, and \<^verbatim>\<open>robots.isAllowed(targetUrl, userAgent) ?? true\<close>.
\<close>

definition robots_decision ::
  "crawl_env \<Rightarrow> fetch_result \<Rightarrow> jsstring \<Rightarrow> jsstring \<Rightarrow> jsstring \<Rightarrow> js_error + bool" where
  "robots_decision env fetched robotsUrl targetUrl userAgent =
     (case fetched of
        Throws e \<Rightarrow> Inl e
      | Responds response \<Rightarrow>
          if \<not> resp_ok response then Inl (HttpError (resp_status response))
          else
            (case resp_text response of
               Inl e \<Rightarrow> Inl e
             | Inr robotsTxt \<Rightarrow>
                 Inr (case robots_isAllowed env robotsUrl robotsTxt targetUrl userAgent of
                        None \<Rightarrow> True
                      | Some allowed \<Rightarrow> allowed)))"

text \<open>
  \<^verbatim>\<open>
  private async isUrlAllowed(targetUrl, userAgent = BATCH_OPTIONS.USER_AGENT) {
    const url = new URL(targetUrl);
    const robotsUrl = `${url.origin}/robots.txt`;
    if (this.robotsCache.has(robotsUrl)) {
      return this.robotsCache.get(robotsUrl)!;
    }
    try {
      ...
      this.robotsCache.set(robotsUrl, isAllowed);
      return isAllowed;
    } catch (error) {
      if (error instanceof Error && error.name === 'AbortError') {
        return false;
      }
      this.robotsCache.set(robotsUrl, true);
      return true;
    }
  }
  \<close>
  \<^verbatim>\<open>new URL\<close> stands before the \<^verbatim>\<open>try\<close>: its \<^verbatim>\<open>TypeError\<close> leaves the function.
\<close>

definition isUrlAllowed ::
  "crawl_env \<Rightarrow> crawl_state \<Rightarrow> jsstring \<Rightarrow> jsstring \<Rightarrow> (js_error + bool) \<times> crawl_state" where
  "isUrlAllowed env st targetUrl userAgent =
     (case new_URL_origin env targetUrl of
        None \<Rightarrow> (Inl TypeError, st)
      | Some origin \<Rightarrow>
          (let robotsUrl = origin @ js ''/robots.txt''
           in case robotsCache st robotsUrl of
                Some allowed \<Rightarrow> (Inr allowed, st)
              | None \<Rightarrow>
                  (let fetched = net env (length (requests st)) robotsUrl;
                       st' = st\<lparr>requests := requests st @ [robotsUrl]\<rparr>
                   in case robots_decision env fetched robotsUrl targetUrl userAgent of
                        Inr isAllowed \<Rightarrow>
                          (Inr isAllowed,
                           st'\<lparr>robotsCache := (robotsCache st')(robotsUrl \<mapsto> isAllowed)\<rparr>)
                      | Inl AbortError \<Rightarrow> (Inr False, st')
                      | Inl _ \<Rightarrow>
                          (Inr True,
                           st'\<lparr>robotsCache := (robotsCache st')(robotsUrl \<mapsto> True)\<rparr>))))"

text \<open>
  \<^verbatim>\<open>text.replace(/\s+/g, ' ').trim()\<close>: every run of white space becomes one space, and
  the space that is then left at either end is removed.
\<close>

fun collapse_ws :: "jsstring \<Rightarrow> jsstring" where
  "collapse_ws [] = []"
| "collapse_ws [c] = (if is_space c then [32] else [c])"
| "collapse_ws (c # d # ds) =
     (if is_space c then (if is_space d then collapse_ws (d # ds) else 32 # collapse_ws (d # ds))
      else c # collapse_ws (d # ds))"

definition trim :: "jsstring \<Rightarrow> jsstring" where
  "trim s = rev (dropWhile is_space (rev (dropWhile is_space s)))"

text \<open>
  \<^verbatim>\<open>extractContent\<close>: the normalised texts of at least \<^verbatim>\<open>MIN_TEXT_LENGTH\<close> code units,
  collected in a \<^verbatim>\<open>Set\<close>, which keeps the first occurrence of each.
\<close>

definition extractContent :: "crawl_env \<Rightarrow> jsstring \<Rightarrow> jsstring \<Rightarrow> CrawlResult" where
  "extractContent env html ttl =
     \<lparr>cr_title = ttl,
      cr_texts =
        rev (remdups (rev (filter (\<lambda>text. length text \<ge> MIN_TEXT_LENGTH)
               (map (\<lambda>text. trim (collapse_ws text)) (select_texts env html)))))\<rparr>"

text \<open>
  \<^verbatim>\<open>crawlWebsite\<close>: \<open>None\<close> is \<^verbatim>\<open>null\<close>. Its \<^verbatim>\<open>try\<close> block holds the whole body, so
  whatever is thrown inside, by \<^verbatim>\<open>isUrlAllowed\<close> as well, ends in \<^verbatim>\<open>null\<close>.
\<close>

definition crawlWebsite ::
  "crawl_env \<Rightarrow> crawl_state \<Rightarrow> SearchResult \<Rightarrow> CrawlResult option \<times> crawl_state" where
  "crawlWebsite env st result =
     (case isUrlAllowed env st (sr_url result) USER_AGENT of
        (Inl e, st') \<Rightarrow> (None, st')
      | (Inr isAllowed, st') \<Rightarrow>
          if \<not> isAllowed then (None, st')
          else
            (let fetched = net env (length (requests st')) (sr_url result);
                 st'' = st'\<lparr>requests := requests st' @ [sr_url result]\<rparr>
             in case fetched of
                  Throws e \<Rightarrow> (None, st'')
                | Responds response \<Rightarrow>
                    if \<not> resp_ok response then (None, st'')
                    else
                      (case resp_text response of
                         Inl e \<Rightarrow> (None, st'')
                       | Inr html \<Rightarrow>
                           (Some (extractContent env html (sr_title result)), st''))))"

section \<open>The pipeline orchestrator\<close>

text \<open>
  The orchestrator \<^verbatim>\<open>BatchService\<close> is modelled against the interfaces of the services
  injected into it. The store holds keywords, articles and quizzes; identifiers are
  integers (\<^verbatim>\<open>bigint\<close>). Of a keyword the pipeline reads the name, the description and
  the dates of its \<^verbatim>\<open>TodaysKeyword\<close> rows. A date is a number of milliseconds.
\<close>

type_synonym date = int

record Keyword =
  kw_id :: int
  kw_name :: jsstring
  kw_description :: jsstring
  kw_TodaysKeyword :: "date list"

record KeywordInfo =
  ki_name :: jsstring
  ki_description :: jsstring

record Article =
  art_id :: int
  art_title :: jsstring
  art_content :: jsstring
  art_summary :: jsstring
  art_publishedAt :: date
  art_keywordId :: int

text \<open>
  A quiz row: the article it belongs to, its answer as a string (\<^verbatim>\<open>String(answer)\<close>) and
  the other fields the generation service returned, which the pipeline copies unread.
\<close>

record Quiz =
  quiz_articleId :: int
  quiz_answer :: jsstring
  quiz_rest :: jsstring

record database =
  keyword_table :: "Keyword list"
  article_table :: "Article list"
  quiz_table :: "Quiz list"

text \<open>What the generation service returns for the two schemas.\<close>

record generated_article =
  ga_title :: jsstring
  ga_content :: jsstring

record generated_quiz =
  gq_answer :: jsstring
  gq_rest :: jsstring

datatype schema = articleSchema | quizArraySchema

text \<open>
  The calls the orchestrator makes to the services around it, in the order it makes them:
  the search client, the crawler, the generation service with a schema or for free text.
  \<open>RankCall\<close> marks the construction and the query of a \<^verbatim>\<open>BM25Service\<close>, with the
  documents indexed and the query.
\<close>

datatype call =
    SearchCall jsstring
  | CrawlCall SearchResult
  | GenerateObjCall schema jsstring
  | GenerateTextCall jsstring
  | RankCall "CrawledDocument list" jsstring

datatype error =
    KEYWORD_NOT_FOUND
  | CONTENTS_ALREADY_EXISTS
  | BRAVE_SEARCH_API_REQUEST_FAILED
  | KEYWORD_DATE_NOT_EXISTS
  | EXTERNAL_ERROR

text \<open>
  The answer of the search API to \<^verbatim>\<open>searchByKeyword\<close>: the request or the decoding of
  its body throws, or the response is not ok, or it is ok and carries results.
\<close>

datatype brave_result = BraveThrows | BraveNotOk | BraveOk "SearchResult list"

text \<open>
  The services. Each takes the number of calls made before it, so that a service can
  answer the same request differently at different times; \<open>None\<close> from the generation
  service is a rejected promise. The prompt builders and \<^verbatim>\<open>JSON.stringify\<close> are functions
  of their arguments; \<open>current_date\<close> is \<^verbatim>\<open>new Date()\<close>.
\<close>

record batch_env =
  brave :: "nat \<Rightarrow> jsstring \<Rightarrow> brave_result"
  crawler :: "nat \<Rightarrow> SearchResult \<Rightarrow> CrawlResult option"
  generateObj_article :: "nat \<Rightarrow> jsstring \<Rightarrow> generated_article option"
  generateObj_quizzes :: "nat \<Rightarrow> jsstring \<Rightarrow> generated_quiz list option"
  generateText :: "nat \<Rightarrow> jsstring \<Rightarrow> jsstring option"
  createConceptPrompts :: "jsstring \<Rightarrow> jsstring \<Rightarrow> jsstring \<Rightarrow> jsstring"
  createExamplePrompts :: "jsstring \<Rightarrow> jsstring \<Rightarrow> jsstring \<Rightarrow> jsstring"
  createRelatedWordsPrompts :: "jsstring \<Rightarrow> jsstring \<Rightarrow> jsstring \<Rightarrow> jsstring"
  createImportancePrompts :: "jsstring \<Rightarrow> jsstring \<Rightarrow> jsstring \<Rightarrow> jsstring"
  createExplorationPrompts :: "jsstring \<Rightarrow> jsstring \<Rightarrow> jsstring \<Rightarrow> jsstring"
  createQuizzesPrompts :: "jsstring \<Rightarrow> jsstring"
  createSummaryPrompts :: "jsstring \<Rightarrow> jsstring"
  JSON_stringify :: "CrawledDocument list \<Rightarrow> jsstring"
  current_date :: date

text \<open>
  The state the orchestrator works on: the store and the calls made so far. Writes to the
  store are taken to succeed; a transaction is then the sequence of its writes.
\<close>

record world =
  db :: database
  trace :: "call list"

definition MAX_TEXT_LENGTH_FOR_BM25 :: nat where
  "MAX_TEXT_LENGTH_FOR_BM25 = 1000"

text \<open>
  \<^verbatim>\<open>Promise.all\<close> over a batch of calls: every call of the batch is made, the \<open>i\<close>-th
  after \<open>n + i\<close> earlier calls, and the batch is rejected when one of them is.
\<close>

definition call_all :: "(nat \<Rightarrow> 'a \<Rightarrow> 'b option) \<Rightarrow> nat \<Rightarrow> 'a list \<Rightarrow> 'b list option" where
  "call_all service n args = those (map (\<lambda>(i, arg). service (n + i) arg) (enumerate 0 args))"

text \<open>\<^verbatim>\<open>prisma.article.findFirst({ where: { keywordId } })\<close>, as a truth value.\<close>

definition isArticleExists :: "world \<Rightarrow> int \<Rightarrow> bool" where
  "isArticleExists w keywordId =
     (find (\<lambda>a. art_keywordId a = keywordId) (article_table (db w)) \<noteq> None)"

text \<open>\<^verbatim>\<open>prisma.quiz.findFirst({ where: { Article: { keywordId } } })\<close>, as a truth value.\<close>

definition isQuizExists :: "world \<Rightarrow> int \<Rightarrow> bool" where
  "isQuizExists w keywordId =
     (find (\<lambda>q. list_ex (\<lambda>a. art_id a = quiz_articleId q \<and> art_keywordId a = keywordId)
                  (article_table (db w)))
        (quiz_table (db w)) \<noteq> None)"

definition findKeyword :: "world \<Rightarrow> int \<Rightarrow> error + KeywordInfo" where
  "findKeyword w keywordId =
     (case find (\<lambda>k. kw_id k = keywordId) (keyword_table (db w)) of
        None \<Rightarrow> Inl KEYWORD_NOT_FOUND
      | Some keyword \<Rightarrow>
          Inr \<lparr>ki_name = kw_name keyword, ki_description = kw_description keyword\<rparr>)"

definition getKeywordPublishedDate :: "world \<Rightarrow> int \<Rightarrow> error + date" where
  "getKeywordPublishedDate w keywordId =
     (case find (\<lambda>k. kw_id k = keywordId) (keyword_table (db w)) of
        None \<Rightarrow> Inl KEYWORD_NOT_FOUND
      | Some keyword \<Rightarrow>
          (case kw_TodaysKeyword keyword of
             [] \<Rightarrow> Inl KEYWORD_DATE_NOT_EXISTS
           | d # _ \<Rightarrow> Inr d))"

text \<open>
  \<^verbatim>\<open>`${keywordInfo.name} ${keywordInfo.description.split('.')[0]}`\<close>: the name, a space, and
  the description up to its first full stop.
\<close>

definition generateQuery :: "KeywordInfo \<Rightarrow> jsstring" where
  "generateQuery keywordInfo =
     ki_name keywordInfo @ [32] @ takeWhile (\<lambda>c. c \<noteq> 46) (ki_description keywordInfo)"

text \<open>\<^verbatim>\<open>BraveSearchService.searchByKeyword\<close>: one request, an error when it is not ok.\<close>

definition searchByKeyword ::
  "batch_env \<Rightarrow> world \<Rightarrow> jsstring \<Rightarrow> (error + SearchResult list) \<times> world" where
  "searchByKeyword env w keyword =
     (let w' = w\<lparr>trace := trace w @ [SearchCall keyword]\<rparr>
      in case brave env (length (trace w)) keyword of
           BraveThrows \<Rightarrow> (Inl EXTERNAL_ERROR, w')
         | BraveNotOk \<Rightarrow> (Inl BRAVE_SEARCH_API_REQUEST_FAILED, w')
         | BraveOk results \<Rightarrow> (Inr results, w'))"

text \<open>\<^verbatim>\<open>texts.join('\n')\<close>\<close>

fun join_lines :: "jsstring list \<Rightarrow> jsstring" where
  "join_lines [] = []"
| "join_lines [t] = t"
| "join_lines (t # u # us) = t @ [10] @ join_lines (u # us)"

text \<open>
  \<^verbatim>\<open>generateRelatedData\<close>: search, crawl every result, keep the documents that were
  crawled and whose joined text has at most \<^verbatim>\<open>MAX_TEXT_LENGTH_FOR_BM25\<close> code units, rank
  them against the query with a \<^verbatim>\<open>BM25Service\<close> built with its default arguments, and
  serialise the documents of the results.
\<close>

definition generateRelatedData ::
  "batch_env \<Rightarrow> world \<Rightarrow> KeywordInfo \<Rightarrow> (error + jsstring) \<times> world" where
  "generateRelatedData env w keywordInfo =
     (let query = generateQuery keywordInfo
      in case searchByKeyword env w query of
           (Inl e, w1) \<Rightarrow> (Inl e, w1)
         | (Inr searchResults, w1) \<Rightarrow>
             (let crawledArr =
                    map (\<lambda>(i, result). crawler env (length (trace w1) + i) result)
                      (enumerate 0 searchResults);
                  w2 = w1\<lparr>trace := trace w1 @ map CrawlCall searchResults\<rparr>;
                  validDocs =
                    filter (\<lambda>doc. length (content doc) \<le> MAX_TEXT_LENGTH_FOR_BM25)
                      (map (\<lambda>data. \<lparr>title = cr_title data, content = join_lines (cr_texts data)\<rparr>)
                         (map the (filter (\<lambda>data. data \<noteq> None) crawledArr)));
                  bm25Service = BM25Service_new validDocs default_config;
                  mostRelatedDocs = map document (fst (search bm25Service query 7));
                  w3 = w2\<lparr>trace := trace w2 @ [RankCall validDocs query]\<rparr>
              in (Inr (JSON_stringify env mostRelatedDocs), w3)))"

definition createPrompts ::
  "batch_env \<Rightarrow> world \<Rightarrow> KeywordInfo \<Rightarrow> (error + jsstring list) \<times> world" where
  "createPrompts env w keywordInfo =
     (case generateRelatedData env w keywordInfo of
        (Inl e, w') \<Rightarrow> (Inl e, w')
      | (Inr relatedData, w') \<Rightarrow>
          (Inr [createConceptPrompts env (ki_name keywordInfo) (ki_description keywordInfo)
                  relatedData,
                createExamplePrompts env (ki_name keywordInfo) (ki_description keywordInfo)
                  relatedData,
                createRelatedWordsPrompts env (ki_name keywordInfo) (ki_description keywordInfo)
                  relatedData,
                createImportancePrompts env (ki_name keywordInfo) (ki_description keywordInfo)
                  relatedData,
                createExplorationPrompts env (ki_name keywordInfo) (ki_description keywordInfo)
                  relatedData],
           w'))"

text \<open>
  \<^verbatim>\<open>prisma.article.create\<close> inside the transaction: the row gets an identifier that no
  article has yet and is added to the table.
\<close>

definition next_article_id :: "database \<Rightarrow> int" where
  "next_article_id d = 1 + fold max (map art_id (article_table d)) 0"

fun create_articles ::
  "database \<Rightarrow> (generated_article \<times> jsstring) list \<Rightarrow> date \<Rightarrow> int \<Rightarrow> Article list \<times> database" where
  "create_articles d [] publishedAt keywordId = ([], d)"
| "create_articles d ((titleAndContent, summ) # rest) publishedAt keywordId =
     (let newArticle =
            \<lparr>art_id = next_article_id d,
             art_title = ga_title titleAndContent,
             art_content = ga_content titleAndContent,
             art_summary = summ,
             art_publishedAt = publishedAt,
             art_keywordId = keywordId\<rparr>;
          r = create_articles (d\<lparr>article_table := article_table d @ [newArticle]\<rparr>) rest
                publishedAt keywordId
      in (newArticle # fst r, snd r))"

text \<open>
  The generation calls of \<^verbatim>\<open>generateArticles\<close>, common to both versions of the file: an
  article for each prompt, then a summary for each article.
\<close>

definition generate_articles_and_summaries ::
  "batch_env \<Rightarrow> world \<Rightarrow> jsstring list
     \<Rightarrow> (error + (generated_article \<times> jsstring) list) \<times> world" where
  "generate_articles_and_summaries env w prompts =
     (let w1 = w\<lparr>trace := trace w @ map (GenerateObjCall articleSchema) prompts\<rparr>
      in case call_all (generateObj_article env) (length (trace w)) prompts of
           None \<Rightarrow> (Inl EXTERNAL_ERROR, w1)
         | Some titleAndContents \<Rightarrow>
             (let summaryPrompts =
                    map (\<lambda>titleAndContent. createSummaryPrompts env (ga_content titleAndContent))
                      titleAndContents;
                  w2 = w1\<lparr>trace := trace w1 @ map GenerateTextCall summaryPrompts\<rparr>
              in case call_all (generateText env) (length (trace w1)) summaryPrompts of
                   None \<Rightarrow> (Inl EXTERNAL_ERROR, w2)
                 | Some summaries \<Rightarrow> (Inr (zip titleAndContents summaries), w2)))"

text \<open>
  \<^verbatim>\<open>generateArticles\<close> of the first version: the publication date is that of the
  keyword, read after the generation calls.
\<close>

definition generateArticles ::
  "batch_env \<Rightarrow> world \<Rightarrow> int \<Rightarrow> jsstring list \<Rightarrow> (error + Article list) \<times> world" where
  "generateArticles env w keywordId prompts =
     (case generate_articles_and_summaries env w prompts of
        (Inl e, w') \<Rightarrow> (Inl e, w')
      | (Inr generated, w') \<Rightarrow>
          (case getKeywordPublishedDate w' keywordId of
             Inl e \<Rightarrow> (Inl e, w')
           | Inr publishedAt \<Rightarrow>
               (let r = create_articles (db w') generated publishedAt keywordId
                in (Inr (fst r), w'\<lparr>db := snd r\<rparr>))))"

text \<open>\<^verbatim>\<open>generateArticles\<close> of the second version: the publication date is \<^verbatim>\<open>new Date()\<close>.\<close>

definition generateArticles_v2 ::
  "batch_env \<Rightarrow> world \<Rightarrow> int \<Rightarrow> jsstring list \<Rightarrow> (error + Article list) \<times> world" where
  "generateArticles_v2 env w keywordId prompts =
     (case generate_articles_and_summaries env w prompts of
        (Inl e, w') \<Rightarrow> (Inl e, w')
      | (Inr generated, w') \<Rightarrow>
          (let r = create_articles (db w') generated (current_date env) keywordId
           in (Inr (fst r), w'\<lparr>db := snd r\<rparr>)))"

text \<open>
  \<^verbatim>\<open>generateQuizzes\<close>: the articles of the keyword, a generation call for each, and one
  transaction that writes every quiz of every article.
  \<^verbatim>\<open>
  await this.prismaService.$transaction(async (prisma) => {
    await Promise.all(
      quizzes.map(async ({ articleId, quizzes }) => {
        for (const { answer, ...rest } of quizzes) {
          await prisma.quiz.create({
            data: { ...rest, answer: String(answer), articleId },
          });
        }
      }),
    );
  });
  \<close>
  The loops of the articles run side by side under \<^verbatim>\<open>Promise.all\<close>: each issues the
  write of its first quiz, and issues its next write when the one before has completed.
  The transaction serves the writes in the order they are issued, so the rows are written
  in rounds: the first quiz of every article in the order of the articles, then the second
  quiz of every article that has one, and so on. This is the list of the rows of each
  article, transposed and flattened.
\<close>

definition keyword_articles :: "world \<Rightarrow> int \<Rightarrow> Article list" where
  "keyword_articles w keywordId = filter (\<lambda>a. art_keywordId a = keywordId) (article_table (db w))"

definition quiz_prompts :: "batch_env \<Rightarrow> world \<Rightarrow> int \<Rightarrow> jsstring list" where
  "quiz_prompts env w keywordId =
     map (\<lambda>article. createQuizzesPrompts env (art_content article)) (keyword_articles w keywordId)"

definition quiz_rows :: "Article list \<Rightarrow> generated_quiz list list \<Rightarrow> Quiz list" where
  "quiz_rows arts generated =
     concat (transpose
       (map (\<lambda>(article, qs).
               map (\<lambda>q. \<lparr>quiz_articleId = art_id article,
                          quiz_answer = gq_answer q,
                          quiz_rest = gq_rest q\<rparr>) qs)
          (zip arts generated)))"

definition generateQuizzes :: "batch_env \<Rightarrow> world \<Rightarrow> int \<Rightarrow> (error + unit) \<times> world" where
  "generateQuizzes env w keywordId =
     (let prompts = quiz_prompts env w keywordId;
          w1 = w\<lparr>trace := trace w @ map (GenerateObjCall quizArraySchema) prompts\<rparr>
      in case call_all (generateObj_quizzes env) (length (trace w)) prompts of
           None \<Rightarrow> (Inl EXTERNAL_ERROR, w1)
         | Some generated \<Rightarrow>
             (Inr (),
              w1\<lparr>db := (db w1)\<lparr>quiz_table :=
                     quiz_table (db w1) @ quiz_rows (keyword_articles w keywordId) generated\<rparr>\<rparr>))"

text \<open>
  \<^verbatim>\<open>generateContents\<close> of the first version of the file: the existence checks come
  first, the keyword is looked up when no article exists.
  \<^verbatim>\<open>
  if (await this.isArticleExists(keywordId)) {
    if (await this.isQuizExists(keywordId)) {
      throw new Error(ERROR_MESSAGE.CONTENTS_ALREADY_EXISTS);
    }
    await this.generateQuizzes(keywordId);
    return;
  }
  const keywordInfo = await this.findKeyword(keywordId);
  const prompts = await this.createPrompts(keywordInfo);
  await this.generateArticles(keywordId, prompts);
  await this.generateQuizzes(keywordId);
  \<close>
\<close>

definition generateContents :: "batch_env \<Rightarrow> world \<Rightarrow> int \<Rightarrow> (error + unit) \<times> world" where
  "generateContents env w keywordId =
     (if isArticleExists w keywordId then
        (if isQuizExists w keywordId then (Inl CONTENTS_ALREADY_EXISTS, w)
         else generateQuizzes env w keywordId)
      else
        (case findKeyword w keywordId of
           Inl e \<Rightarrow> (Inl e, w)
         | Inr keywordInfo \<Rightarrow>
             (case createPrompts env w keywordInfo of
                (Inl e, w1) \<Rightarrow> (Inl e, w1)
              | (Inr prompts, w1) \<Rightarrow>
                  (case generateArticles env w1 keywordId prompts of
                     (Inl e, w2) \<Rightarrow> (Inl e, w2)
                   | (Inr _, w2) \<Rightarrow> generateQuizzes env w2 keywordId))))"

text \<open>
  \<^verbatim>\<open>generateContents\<close> of the second version of the file: the keyword is looked up
  first.
  \<^verbatim>\<open>
  const keywordInfo = await this.findKeyword(keywordId);
  if (await this.isArticleExists(keywordId)) {
    if (await this.isQuizExists(keywordId)) {
      throw new Error(ERROR_MESSAGE.CONTENTS_ALREADY_EXISTS);
    }
    await this.generateQuizzes(keywordId);
    return;
  }
  const prompts = await this.createPrompts(keywordInfo);
  await this.generateArticles(keywordId, prompts);
  await this.generateQuizzes(keywordId);
  \<close>
\<close>

definition generateContents_v2 :: "batch_env \<Rightarrow> world \<Rightarrow> int \<Rightarrow> (error + unit) \<times> world" where
  "generateContents_v2 env w keywordId =
     (case findKeyword w keywordId of
        Inl e \<Rightarrow> (Inl e, w)
      | Inr keywordInfo \<Rightarrow>
          if isArticleExists w keywordId then
            (if isQuizExists w keywordId then (Inl CONTENTS_ALREADY_EXISTS, w)
             else generateQuizzes env w keywordId)
          else
            (case createPrompts env w keywordInfo of
               (Inl e, w1) \<Rightarrow> (Inl e, w1)
             | (Inr prompts, w1) \<Rightarrow>
                 (case generateArticles_v2 env w1 keywordId prompts of
                    (Inl e, w2) \<Rightarrow> (Inl e, w2)
                  | (Inr _, w2) \<Rightarrow> generateQuizzes env w2 keywordId)))"

section \<open>Example collections\<close>

text \<open>Two documents that both contain the term \<open>inflation\<close>.\<close>

definition df_docs :: "CrawledDocument list" where
  "df_docs =
     [\<lparr>title = js ''d1'', content = js ''inflation rises''\<rparr>,
      \<lparr>title = js ''d2'', content = js ''inflation falls''\<rparr>]"

text \<open>
  The worked example of the specification: \<open>D1\<close> has ten tokens and the query term
  \<open>gdp\<close> three times, \<open>D2\<close> has five tokens and the term once.
\<close>

definition worked_docs :: "CrawledDocument list" where
  "worked_docs =
     [\<lparr>title = js ''D1'', content = js ''gdp gdp gdp a b c d e f g''\<rparr>,
      \<lparr>title = js ''D2'', content = js ''gdp h i j k''\<rparr>]"

text \<open>Two documents with the same content under different titles.\<close>

definition twin_docs :: "CrawledDocument list" where
  "twin_docs =
     [\<lparr>title = js ''t1'', content = js ''a''\<rparr>,
      \<lparr>title = js ''t2'', content = js ''a''\<rparr>]"

text \<open>Two documents with different contents under the same title.\<close>

definition same_title_docs :: "CrawledDocument list" where
  "same_title_docs =
     [\<lparr>title = js ''t'', content = js ''foo''\<rparr>,
      \<lparr>title = js ''t'', content = js ''bar''\<rparr>]"

text \<open>One document with the term \<open>a\<close> twice, and a configuration with a negative \<open>k1\<close>.\<close>

definition single_doc :: "CrawledDocument list" where
  "single_doc = [\<lparr>title = js ''t'', content = js ''a a''\<rparr>]"

definition negative_k1_config :: PartialBM25Config where
  "negative_k1_config = \<lparr>k1_opt = Some (- 1.5), b_opt = Some 0\<rparr>"

text \<open>
  A network where the first request times out and every later one fails otherwise, a URL
  parser that knows one page of \<open>example.com\<close>, and a service that has not requested
  anything yet.
\<close>

definition example_crawl_env :: crawl_env where
  "example_crawl_env =
     \<lparr>net = (\<lambda>n u. if n = 0 then Throws AbortError else Throws NetworkError),
      url_parser = (\<lambda>s. if s = js ''https://example.com/page''
                          then Some (js ''https://example.com'') else None),
      robots_isAllowed = (\<lambda>robotsUrl robotsTxt targetUrl userAgent. None),
      select_texts = (\<lambda>html. [])\<rparr>"

definition empty_crawl_state :: crawl_state where
  "empty_crawl_state = \<lparr>robotsCache = Map.empty, requests = []\<rparr>"

text \<open>
  Services that always answer: no search result, one generated article, one summary, and
  for each article two quizzes that carry the prompt they were generated from.
\<close>

definition example_batch_env :: batch_env where
  "example_batch_env =
     \<lparr>brave = (\<lambda>n q. BraveOk []),
      crawler = (\<lambda>n r. None),
      generateObj_article = (\<lambda>n p. Some \<lparr>ga_title = js ''T'', ga_content = js ''C''\<rparr>),
      generateObj_quizzes =
        (\<lambda>n p. Some [\<lparr>gq_answer = js ''1'', gq_rest = p @ js ''a''\<rparr>,
                       \<lparr>gq_answer = js ''2'', gq_rest = p @ js ''b''\<rparr>]),
      generateText = (\<lambda>n p. Some (js ''S'')),
      createConceptPrompts = (\<lambda>k d j. k),
      createExamplePrompts = (\<lambda>k d j. k),
      createRelatedWordsPrompts = (\<lambda>k d j. k),
      createImportancePrompts = (\<lambda>k d j. k),
      createExplorationPrompts = (\<lambda>k d j. k),
      createQuizzesPrompts = (\<lambda>c. c),
      createSummaryPrompts = (\<lambda>c. c),
      JSON_stringify = (\<lambda>ds. []),
      current_date = 0\<rparr>"

definition example_keyword :: Keyword where
  "example_keyword =
     \<lparr>kw_id = 1, kw_name = js ''inflation'', kw_description = js ''A rise in prices.'',
      kw_TodaysKeyword = [0]\<rparr>"

definition example_article :: Article where
  "example_article =
     \<lparr>art_id = 10, art_title = js ''T'', art_content = js ''C'', art_summary = js ''S'',
      art_publishedAt = 0, art_keywordId = 1\<rparr>"

definition second_article :: Article where
  "second_article =
     \<lparr>art_id = 11, art_title = js ''U'', art_content = js ''D'', art_summary = js ''S'',
      art_publishedAt = 0, art_keywordId = 1\<rparr>"

definition example_quiz :: Quiz where
  "example_quiz = \<lparr>quiz_articleId = 10, quiz_answer = js ''1'', quiz_rest = js ''Q''\<rparr>"

text \<open>
  An empty store; the keyword with two articles and no quiz; the keyword with an article
  and a quiz.
\<close>

definition empty_world :: world where
  "empty_world = \<lparr>db = \<lparr>keyword_table = [], article_table = [], quiz_table = []\<rparr>, trace = []\<rparr>"

definition article_only_world :: world where
  "article_only_world =
     \<lparr>db = \<lparr>keyword_table = [example_keyword],
            article_table = [example_article, second_article],
            quiz_table = []\<rparr>,
      trace = []\<rparr>"

definition complete_world :: world where
  "complete_world =
     \<lparr>db = \<lparr>keyword_table = [example_keyword], article_table = [example_article],
            quiz_table = [example_quiz]\<rparr>,
      trace = []\<rparr>"

text \<open>A store whose article and quiz refer to a keyword that is not in it.\<close>

definition orphan_world :: world where
  "orphan_world =
     \<lparr>db = \<lparr>keyword_table = [], article_table = [example_article],
            quiz_table = [example_quiz]\<rparr>,
      trace = []\<rparr>"

section \<open>Properties of the tokenizer\<close>

text \<open>The equation of \<open>split_ws\<close> for a non-empty string is unfolded by hand.\<close>

declare split_ws.simps(2) [simp del]

lemma split_ws_nonempty: "split_ws s \<noteq> []"
proof (induction s)
  case Nil
  show ?case by simp
next
  case (Cons c cs)
  note IH = Cons.IH
  show ?case
  proof (cases cs)
    case Nil
    then show ?thesis by (simp add: split_ws.simps(2))
  next
    case (Cons d ds)
    obtain f fs where "split_ws cs = f # fs"
      using IH by (cases "split_ws cs") auto
    then show ?thesis
      unfolding Cons by (simp add: split_ws.simps(2) [of c "d # ds"])
  qed
qed

lemma split_ws_cons_nonspace:
  "\<not> is_space c \<Longrightarrow> split_ws (c # cs) = (c # hd (split_ws cs)) # tl (split_ws cs)"
  using split_ws_nonempty [of cs] by (cases "split_ws cs") (simp_all add: split_ws.simps(2))

lemma split_ws_cons_space:
  "is_space c \<Longrightarrow> split_ws (c # cs) =
     (if cs = [] then [Nil, Nil] else if is_space (hd cs) then split_ws cs else [] # split_ws cs)"
  by (cases cs) (simp_all add: split_ws.simps(2))

lemma split_ws_space_hd: "is_space c \<Longrightarrow> hd (split_ws (c # cs)) = []"
proof (induction cs arbitrary: c)
  case Nil
  then show ?case by (simp add: split_ws_cons_space)
next
  case (Cons d ds)
  then show ?case by (simp add: split_ws_cons_space [of c])
qed

lemma toks_decompose:
  "filter (\<lambda>t. t \<noteq> []) (split_ws s) =
     (if hd (split_ws s) = [] then [] else [hd (split_ws s)])
       @ filter (\<lambda>t. t \<noteq> []) (tl (split_ws s))"
  using split_ws_nonempty [of s] by (cases "split_ws s") auto

lemma toks_space_cons:
  assumes "is_space c"
  shows "filter (\<lambda>t. t \<noteq> []) (split_ws (c # cs)) = filter (\<lambda>t. t \<noteq> []) (split_ws cs)"
proof (cases cs)
  case Nil
  with assms show ?thesis by (simp add: split_ws_cons_space)
next
  case (Cons d ds)
  show ?thesis
  proof (cases "is_space d")
    case True
    with assms Cons show ?thesis by (simp add: split_ws_cons_space [of c])
  next
    case False
    with assms Cons show ?thesis by (simp add: split_ws_cons_space [of c])
  qed
qed

lemma split_ws_space_tl:
  assumes "is_space c"
  shows "filter (\<lambda>t. t \<noteq> []) (tl (split_ws (c # cs))) = filter (\<lambda>t. t \<noteq> []) (split_ws cs)"
  using toks_decompose [of "c # cs"] split_ws_space_hd [OF assms, of cs] toks_space_cons [OF assms, of cs]
  by simp

lemma split_ws_append_space:
  assumes s: "is_space s"
  shows "hd (split_ws (pre @ s # post)) = hd (split_ws pre) \<and>
     filter (\<lambda>t. t \<noteq> []) (tl (split_ws (pre @ s # post)))
       = filter (\<lambda>t. t \<noteq> []) (tl (split_ws pre)) @ filter (\<lambda>t. t \<noteq> []) (split_ws post)"
proof (induction pre)
  case Nil
  show ?case using split_ws_space_hd [OF s, of post] split_ws_space_tl [OF s, of post] by simp
next
  case (Cons c pre)
  show ?case
  proof (cases "is_space c")
    case True
    have 1: "filter (\<lambda>t. t \<noteq> []) (tl (split_ws (c # pre @ s # post)))
        = filter (\<lambda>t. t \<noteq> []) (split_ws (pre @ s # post))"
      using split_ws_space_tl [OF True] by simp
    have 2: "filter (\<lambda>t. t \<noteq> []) (split_ws (pre @ s # post))
        = filter (\<lambda>t. t \<noteq> []) (split_ws pre) @ filter (\<lambda>t. t \<noteq> []) (split_ws post)"
      using Cons.IH by (simp add: toks_decompose [of "pre @ s # post"] toks_decompose [of pre])
    have 3: "filter (\<lambda>t. t \<noteq> []) (split_ws pre) = filter (\<lambda>t. t \<noteq> []) (tl (split_ws (c # pre)))"
      using split_ws_space_tl [OF True, of pre] by simp
    have 4: "hd (split_ws (c # pre @ s # post)) = hd (split_ws (c # pre))"
      using split_ws_space_hd [OF True, of pre] split_ws_space_hd [OF True, of "pre @ s # post"] by simp
    show ?thesis using 1 2 3 4 by simp
  next
    case False
    then show ?thesis
      using Cons.IH by (simp add: split_ws_cons_nonspace)
  qed
qed

lemma toks_append_space:
  "is_space s \<Longrightarrow>
     filter (\<lambda>t. t \<noteq> []) (split_ws (pre @ s # post))
       = filter (\<lambda>t. t \<noteq> []) (split_ws pre) @ filter (\<lambda>t. t \<noteq> []) (split_ws post)"
  using split_ws_append_space [of s pre post]
  by (simp add: toks_decompose [of "pre @ s # post"] toks_decompose [of pre])

lemma toks_spaces_prefix:
  "\<forall>c\<in>set sp. is_space c \<Longrightarrow>
     filter (\<lambda>t. t \<noteq> []) (split_ws (sp @ post)) = filter (\<lambda>t. t \<noteq> []) (split_ws post)"
  by (induction sp) (simp_all add: toks_space_cons)

lemma toks_append_spaces:
  assumes "sp \<noteq> []" and "\<forall>c\<in>set sp. is_space c"
  shows "filter (\<lambda>t. t \<noteq> []) (split_ws (pre @ sp @ post))
       = filter (\<lambda>t. t \<noteq> []) (split_ws pre) @ filter (\<lambda>t. t \<noteq> []) (split_ws post)"
proof -
  obtain s sp' where sp: "sp = s # sp'" using assms(1) by (cases sp) auto
  then have s: "is_space s" and sp': "\<forall>c\<in>set sp'. is_space c" using assms(2) by auto
  show ?thesis
    using toks_append_space [OF s, of pre "sp' @ post"] toks_spaces_prefix [OF sp', of post] sp by simp
qed

lemma split_ws_set:
  "f \<in> set (split_ws s) \<Longrightarrow> c \<in> set f \<Longrightarrow> c \<in> set s \<and> \<not> is_space c"
proof (induction s arbitrary: f)
  case Nil
  then show ?case by simp
next
  case (Cons d ds)
  show ?case
  proof (cases "is_space d")
    case True
    with Cons.prems have "f \<in> set (split_ws ds)"
      by (auto simp: split_ws_cons_space [of d] split: if_splits)
    with Cons.IH Cons.prems(2) show ?thesis by auto
  next
    case False
    from Cons.prems(1) False
    have "f = d # hd (split_ws ds) \<or> f \<in> set (tl (split_ws ds))"
      by (simp add: split_ws_cons_nonspace)
    then show ?thesis
    proof
      assume f: "f = d # hd (split_ws ds)"
      have hd_in: "hd (split_ws ds) \<in> set (split_ws ds)"
        using split_ws_nonempty by simp
      from Cons.prems(2) f have "c = d \<or> c \<in> set (hd (split_ws ds))" by simp
      then show ?thesis
        using Cons.IH [OF hd_in] False by auto
    next
      assume "f \<in> set (tl (split_ws ds))"
      then have "f \<in> set (split_ws ds)"
        using split_ws_nonempty [of ds] by (cases "split_ws ds") auto
      then show ?thesis
        using Cons.IH Cons.prems(2) by auto
    qed
  qed
qed

lemma split_ws_no_space: "\<forall>c\<in>set w. \<not> is_space c \<Longrightarrow> split_ws w = [w]"
  by (induction w) (simp_all add: split_ws_cons_nonspace)


lemma toLowerCase_append: "toLowerCase (pre @ post) = toLowerCase pre @ toLowerCase post"
  by (simp add: toLowerCase_def)

lemma replace_nonword_append: "replace_nonword (pre @ post) = replace_nonword pre @ replace_nonword post"
  by (simp add: replace_nonword_def)

lemma lower_unit_not_upper: "u \<in> set (lower_unit c) \<Longrightarrow> \<not> is_upper u"
  by (auto simp: lower_unit_def is_upper_def split: if_splits)

lemma toLowerCase_not_upper: "u \<in> set (toLowerCase s) \<Longrightarrow> \<not> is_upper u"
  by (auto simp: toLowerCase_def dest: lower_unit_not_upper)

lemma replace_nonword_set:
  "u \<in> set (replace_nonword s) \<Longrightarrow> (is_word u \<or> is_space u) \<and> (u \<in> set s \<or> u = 32)"
  by (auto simp: replace_nonword_def is_space_def split: if_splits)

lemma tokenize_token_chars:
  assumes "t \<in> set (tokenize s)"
  shows "t \<noteq> [] \<and> (\<forall>c\<in>set t. is_token_char c)"
proof
  show "t \<noteq> []" using assms by (simp add: tokenize_def)
  show "\<forall>c\<in>set t. is_token_char c"
  proof
    fix c assume c: "c \<in> set t"
    from assms have t: "t \<in> set (split_ws (replace_nonword (toLowerCase s)))"
      by (simp add: tokenize_def)
    from split_ws_set [OF t c]
    have in_r: "c \<in> set (replace_nonword (toLowerCase s))" and ns: "\<not> is_space c"
      by simp_all
    from replace_nonword_set [OF in_r] ns
    have w: "is_word c" and "c \<in> set (toLowerCase s) \<or> c = 32" by auto
    then have "\<not> is_upper c"
      using toLowerCase_not_upper [of c s] by (auto simp: is_upper_def)
    with w show "is_token_char c" by (simp add: is_word_def is_token_char_def)
  qed
qed

lemma replace_nonword_spaces:
  "\<forall>u\<in>set us. \<not> is_word u \<Longrightarrow> \<forall>c\<in>set (replace_nonword us). is_space c"
  by (auto simp: replace_nonword_def is_space_def)

lemma lower_unit_nonempty: "lower_unit c \<noteq> []"
  by (simp add: lower_unit_def)

lemma tokenize_separator:
  assumes "\<forall>u\<in>set (lower_unit c). \<not> is_word u"
  shows "tokenize (xs @ [c] @ ys) = tokenize xs @ tokenize ys"
proof -
  let ?sp = "replace_nonword (lower_unit c)"
  have ne: "?sp \<noteq> []" using lower_unit_nonempty [of c] by (simp add: replace_nonword_def)
  have sp: "\<forall>u\<in>set ?sp. is_space u" using replace_nonword_spaces [OF assms] .
  have "replace_nonword (toLowerCase (xs @ [c] @ ys))
      = replace_nonword (toLowerCase xs) @ ?sp @ replace_nonword (toLowerCase ys)"
    by (simp add: toLowerCase_def replace_nonword_def)
  then show ?thesis
    using toks_append_spaces [OF ne sp] by (simp add: tokenize_def)
qed

lemma hangul_lower_unit: "is_hangul c \<Longrightarrow> lower_unit c = [c] \<and> \<not> is_word c \<and> \<not> is_space c"
  by (auto simp: is_hangul_def lower_unit_def is_word_def is_upper_def is_lower_def
      is_digit_def is_space_def)

lemma tokenize_Nil: "tokenize [] = []"
  by (simp add: tokenize_def toLowerCase_def replace_nonword_def)

lemma tokenize_only_separators:
  "\<forall>c\<in>set s. \<forall>u\<in>set (lower_unit c). \<not> is_word u \<Longrightarrow> tokenize s = []"
proof (induction s)
  case Nil
  show ?case by (rule tokenize_Nil)
next
  case (Cons c s)
  then have "\<forall>u\<in>set (lower_unit c). \<not> is_word u" by simp
  from tokenize_separator [OF this, of "[]" s] Cons show ?case
    by (simp add: tokenize_Nil)
qed

lemma token_char_lower_unit: "is_token_char c \<Longrightarrow> lower_unit c = [c] \<and> is_word c \<and> \<not> is_space c"
  by (auto simp: is_token_char_def lower_unit_def is_word_def is_upper_def is_lower_def
      is_digit_def is_space_def)

lemma tokenize_word:
  assumes "w \<noteq> []" and "\<forall>c\<in>set w. is_token_char c"
  shows "tokenize w = [w]"
proof -
  have "toLowerCase w = w"
    using assms(2) by (induction w) (simp_all add: toLowerCase_def token_char_lower_unit)
  moreover have "replace_nonword w = w"
    using assms(2) by (induction w) (simp_all add: replace_nonword_def token_char_lower_unit)
  moreover have "split_ws w = [w]"
    using assms(2) by (intro split_ws_no_space) (simp add: token_char_lower_unit)
  ultimately show ?thesis using assms(1) by (simp add: tokenize_def)
qed

lemma lower_unit_separator_iff:
  "(\<forall>u\<in>set (lower_unit c). \<not> is_word u) = (\<not> is_word c \<and> c \<noteq> 8490 \<and> c \<noteq> 304)"
  by (auto simp: lower_unit_def is_word_def is_upper_def is_lower_def is_digit_def)

lemma tokenize_lower_cong: "toLowerCase s = toLowerCase s' \<Longrightarrow> tokenize s = tokenize s'"
  by (simp add: tokenize_def)

lemma tokenize_upper:
  assumes "is_upper c"
  shows "tokenize (xs @ [c] @ ys) = tokenize (xs @ [c + 32] @ ys)"
proof (rule tokenize_lower_cong)
  have "lower_unit (c + 32) = [c + 32]" and "lower_unit c = [c + 32]"
    using assms by (simp_all add: lower_unit_def is_upper_def)
  then show "toLowerCase (xs @ [c] @ ys) = toLowerCase (xs @ [c + 32] @ ys)"
    by (simp add: toLowerCase_def)
qed

lemma tokenize_kelvin: "tokenize (xs @ [8490] @ ys) = tokenize (xs @ [107] @ ys)"
  by (rule tokenize_lower_cong) (simp add: toLowerCase_def lower_unit_def is_upper_def)

lemma tokenize_dotted_I:
  "tokenize (xs @ [304] @ ys) = tokenize (xs @ [105]) @ tokenize ys"
proof -
  have "toLowerCase (xs @ [304] @ ys) = toLowerCase ((xs @ [105]) @ [775] @ ys)"
    by (simp add: toLowerCase_def lower_unit_def is_upper_def)
  then have "tokenize (xs @ [304] @ ys) = tokenize ((xs @ [105]) @ [775] @ ys)"
    by (rule tokenize_lower_cong)
  also have "\<dots> = tokenize (xs @ [105]) @ tokenize ys"
    by (rule tokenize_separator)
      (simp add: lower_unit_def is_upper_def is_word_def is_lower_def is_digit_def)
  finally show ?thesis .
qed

text \<open>
  Claim C10, as far as it holds. Every token the tokenizer produces is non-empty and made
  of the characters \<^verbatim>\<open>[a-z0-9_]\<close> only. The text is lower-cased first, and every code
  unit of the lower-cased text that is not a word character is replaced by a space. So a
  code unit of the text that is neither in \<^verbatim>\<open>[A-Za-z0-9_]\<close> nor the Kelvin sign U+212A
  nor U+0130 is a separator: the tokens of a text around it are the tokens of the part
  before it followed by the tokens of the part after it. Every Hangul code unit is one of
  these, so a text written in Hangul alone has no token at all, and a run of
  \<^verbatim>\<open>[a-z0-9_]\<close> standing alone is its own single token. The other characters outside
  \<^verbatim>\<open>[a-z0-9_]\<close> are not replaced: a letter \<^verbatim>\<open>A\<close> to \<^verbatim>\<open>Z\<close> stays in its token as the
  lower-case letter, the Kelvin sign stays as \<^verbatim>\<open>k\<close>, and U+0130 leaves an \<^verbatim>\<open>i\<close> at the
  end of the token before it.
\<close>

theorem C10_tokenize_ascii_word_tokens:
  "(\<forall>t\<in>set (tokenize s). t \<noteq> [] \<and> (\<forall>c\<in>set t. is_token_char c))
   \<and> ((\<forall>u\<in>set (lower_unit c). \<not> is_word u) \<longrightarrow>
          tokenize (xs @ [c] @ ys) = tokenize xs @ tokenize ys)
   \<and> (is_hangul h \<longrightarrow>
          lower_unit h = [h] \<and> \<not> is_word h
          \<and> tokenize (xs @ [h] @ ys) = tokenize xs @ tokenize ys)
   \<and> ((\<forall>c\<in>set k. is_hangul c) \<longrightarrow> tokenize k = [])
   \<and> (w \<noteq> [] \<and> (\<forall>c\<in>set w. is_token_char c) \<longrightarrow> tokenize w = [w])
   \<and> (\<not> is_word c \<and> c \<noteq> 8490 \<and> c \<noteq> 304 \<longrightarrow>
          tokenize (xs @ [c] @ ys) = tokenize xs @ tokenize ys)
   \<and> (is_upper c \<longrightarrow> tokenize (xs @ [c] @ ys) = tokenize (xs @ [c + 32] @ ys))
   \<and> tokenize (xs @ [8490] @ ys) = tokenize (xs @ [107] @ ys)
   \<and> tokenize (xs @ [304] @ ys) = tokenize (xs @ [105]) @ tokenize ys"
proof (intro conjI)
  show "\<forall>t\<in>set (tokenize s). t \<noteq> [] \<and> (\<forall>c\<in>set t. is_token_char c)"
    using tokenize_token_chars by blast
  show "(\<forall>u\<in>set (lower_unit c). \<not> is_word u) \<longrightarrow>
          tokenize (xs @ [c] @ ys) = tokenize xs @ tokenize ys"
    using tokenize_separator by blast
  show "is_hangul h \<longrightarrow>
          lower_unit h = [h] \<and> \<not> is_word h
          \<and> tokenize (xs @ [h] @ ys) = tokenize xs @ tokenize ys"
  proof
    assume h: "is_hangul h"
    then have "\<forall>u\<in>set (lower_unit h). \<not> is_word u"
      using hangul_lower_unit by simp
    from tokenize_separator [OF this] hangul_lower_unit [OF h]
    show "lower_unit h = [h] \<and> \<not> is_word h
          \<and> tokenize (xs @ [h] @ ys) = tokenize xs @ tokenize ys"
      by simp
  qed
  show "(\<forall>c\<in>set k. is_hangul c) \<longrightarrow> tokenize k = []"
    using hangul_lower_unit tokenize_only_separators [of k] by simp
  show "w \<noteq> [] \<and> (\<forall>c\<in>set w. is_token_char c) \<longrightarrow> tokenize w = [w]"
    using tokenize_word by blast
  show "\<not> is_word c \<and> c \<noteq> 8490 \<and> c \<noteq> 304 \<longrightarrow>
          tokenize (xs @ [c] @ ys) = tokenize xs @ tokenize ys"
    using tokenize_separator [of c xs ys] lower_unit_separator_iff [of c] by blast
  show "is_upper c \<longrightarrow> tokenize (xs @ [c] @ ys) = tokenize (xs @ [c + 32] @ ys)"
    using tokenize_upper by blast
  show "tokenize (xs @ [8490] @ ys) = tokenize (xs @ [107] @ ys)"
    by (rule tokenize_kelvin)
  show "tokenize (xs @ [304] @ ys) = tokenize (xs @ [105]) @ tokenize ys"
    by (rule tokenize_dotted_I)
qed

text \<open>
  The theorem at the text \<open>gyeongje GDP 2024\<close> with the first word in Hangul (U+ACBD,
  U+C81C): its tokens are \<open>gdp\<close> and \<open>2024\<close>, the Hangul word alone has none; and at the
  text \<open>aBc\<close>, whose capital letter is lower-cased.
\<close>

theorem C10_tokenize_witness:
  "tokenize ([44221, 51228, 32] @ js ''GDP 2024'') = [js ''gdp'', js ''2024'']
   \<and> is_token_char 103 \<and> is_token_char 100 \<and> is_token_char 112
   \<and> is_hangul 44221
   \<and> tokenize ([44221] @ [51228] @ js ''GDP'') = tokenize [44221] @ tokenize (js ''GDP'')
   \<and> tokenize [44221, 51228] = []
   \<and> tokenize (js ''gdp'') = [js ''gdp'']
   \<and> tokenize (js ''a'' @ [66] @ js ''c'') = tokenize (js ''a'' @ [98] @ js ''c'')"
proof -
  have ev: "tokenize ([44221, 51228, 32] @ js ''GDP 2024'') = [js ''gdp'', js ''2024'']"
    by (simp add: tokenize_def js_def toLowerCase_def replace_nonword_def lower_unit_def
        is_upper_def is_word_def is_space_def is_lower_def is_digit_def split_ws.simps(2))
  have hg: "is_hangul 44221" "is_hangul 51228"
    by (simp_all add: is_hangul_def)
  have sep: "\<not> is_word 51228 \<and> (51228::nat) \<noteq> 8490 \<and> (51228::nat) \<noteq> 304"
    by (simp add: is_word_def is_upper_def is_lower_def is_digit_def)
  have up: "is_upper 66" by (simp add: is_upper_def)
  have tc: "js ''gdp'' \<noteq> [] \<and> (\<forall>c\<in>set (js ''gdp''). is_token_char c)"
    by (simp add: js_def is_token_char_def is_lower_def)
  note inst = C10_tokenize_ascii_word_tokens
    [of "[44221, 51228, 32] @ js ''GDP 2024''" 51228 "[44221]" "js ''GDP''" 51228
        "[44221, 51228]" "js ''gdp''"]
  note inst_upper = C10_tokenize_ascii_word_tokens
    [of "[]" 66 "js ''a''" "js ''c''" 44221 "[]" "js ''gdp''"]
  from inst ev have "is_token_char 103 \<and> is_token_char 100 \<and> is_token_char 112"
    by (simp add: js_def)
  moreover from inst sep
  have "tokenize ([44221] @ [51228] @ js ''GDP'') = tokenize [44221] @ tokenize (js ''GDP'')"
    by blast
  moreover from inst hg have "tokenize [44221, 51228] = []" by simp
  moreover from inst tc have "tokenize (js ''gdp'') = [js ''gdp'']" by blast
  moreover from inst_upper up
  have "tokenize (js ''a'' @ [66] @ js ''c'') = tokenize (js ''a'' @ [98] @ js ''c'')"
    by simp
  ultimately show ?thesis using ev hg by blast
qed

text \<open>
  Two characters outside \<^verbatim>\<open>[a-z0-9_]\<close> that are neither replaced by white space nor
  separators. The Kelvin sign between two letters \<^verbatim>\<open>m\<close> gives the one token \<open>mkm\<close>,
  where a separator would give the two tokens \<open>m\<close> and \<open>m\<close>; the capital \<^verbatim>\<open>B\<close> of
  \<open>aBc\<close> gives the one token \<open>abc\<close>.
\<close>

theorem C10_kelvin_sign_counterexample:
  "tokenize (js ''m'' @ [8490] @ js ''m'') = [js ''mkm'']
   \<and> tokenize (js ''m'') @ tokenize (js ''m'') = [js ''m'', js ''m'']
   \<and> \<not> is_token_char 8490
   \<and> tokenize (js ''aBc'') = [js ''abc'']
   \<and> tokenize (js ''a'') @ tokenize (js ''c'') = [js ''a'', js ''c'']
   \<and> \<not> is_token_char 66"
  by (simp add: tokenize_def js_def toLowerCase_def replace_nonword_def lower_unit_def
      is_upper_def is_word_def is_space_def is_lower_def is_digit_def is_token_char_def
      split_ws.simps(2))

section \<open>Properties of the index\<close>

lemma count_documents_apply:
  "count_documents m ts t =
     (case m t of Some n \<Rightarrow> Some n | None \<Rightarrow> if t \<in> set ts then Some 1 else None)"
  unfolding count_documents_def
  by (induction ts arbitrary: m) (auto split: option.splits)

lemma set_uniqueTerms: "set (uniqueTerms ts) = set ts"
  by (simp add: uniqueTerms_def)

lemma dom_count_terms_foldl:
  "dom (foldl (\<lambda>termFreq token.
          termFreq(token \<mapsto> (case termFreq token of None \<Rightarrow> 0 | Some n \<Rightarrow> n) + 1)) m ts)
     = dom m \<union> set ts"
  by (induction ts arbitrary: m) auto

lemma dom_count_terms: "dom (count_terms ts) = set ts"
  unfolding count_terms_def by (subst dom_count_terms_foldl) simp

lemma count_terms_nonzero:
  "(case count_terms ts t of None \<Rightarrow> 0 | Some n \<Rightarrow> n) \<noteq> (0::nat) \<Longrightarrow> t \<in> set ts"
  using dom_count_terms [of ts] by (auto split: option.splits)

lemma count_terms_positive_foldl:
  "\<forall>t n. m t = Some n \<longrightarrow> 0 < n \<Longrightarrow>
     foldl (\<lambda>termFreq token.
          termFreq(token \<mapsto> (case termFreq token of None \<Rightarrow> 0 | Some n \<Rightarrow> n) + 1)) m ts t = Some n
     \<Longrightarrow> 0 < (n::nat)"
proof (induction ts arbitrary: m)
  case Nil
  then show ?case by simp
next
  case (Cons x xs)
  show ?case
    by (rule Cons.IH [of "m(x \<mapsto> (case m x of None \<Rightarrow> 0 | Some n \<Rightarrow> n) + 1)"])
      (use Cons.prems in \<open>auto split: option.splits\<close>)
qed

lemma count_terms_member:
  "t \<in> set ts \<Longrightarrow> (case count_terms ts t of None \<Rightarrow> 0 | Some n \<Rightarrow> n) \<noteq> (0::nat)"
proof -
  assume "t \<in> set ts"
  then obtain n where n: "count_terms ts t = Some n"
    using dom_count_terms [of ts] by auto
  then have "0 < n"
    using count_terms_positive_foldl [of Map.empty ts t n] unfolding count_terms_def by blast
  with n show ?thesis by simp
qed

lemma index_document_fields:
  "fst (index_document st d) = fst st + length (tokenize (content d))"
  "documents (snd (index_document st d)) = documents (snd st)"
  "config (snd (index_document st d)) = config (snd st)"
  "idfCache (snd (index_document st d)) = idfCache (snd st)"
  "avgDocLength (snd (index_document st d)) = avgDocLength (snd st)"
  "docLengths (snd (index_document st d))
     = (docLengths (snd st))(title d \<mapsto> length (tokenize (content d)))"
  "termFrequencies (snd (index_document st d))
     = (termFrequencies (snd st))(title d \<mapsto> count_terms (tokenize (content d)))"
  "documentCntsHasTerm (snd (index_document st d))
     = count_documents (documentCntsHasTerm (snd st)) (uniqueTerms (tokenize (content d)))"
  by (simp_all add: index_document_def Let_def)

lemma index_document_snoc:
  "foldl index_document st (ds @ [d]) = index_document (foldl index_document st ds) d"
  by simp

lemma index_fold_documents:
  "documents (snd (foldl index_document st ds)) = documents (snd st)
   \<and> config (snd (foldl index_document st ds)) = config (snd st)
   \<and> idfCache (snd (foldl index_document st ds)) = idfCache (snd st)
   \<and> avgDocLength (snd (foldl index_document st ds)) = avgDocLength (snd st)"
  by (induction ds rule: rev_induct) (simp_all add: index_document_fields)

lemma index_fold_total:
  "fst (foldl index_document st ds)
     = fst st + sum_list (map (\<lambda>d. length (tokenize (content d))) ds)"
  by (induction ds rule: rev_induct) (simp_all add: index_document_fields)

lemma index_fold_df:
  "documentCntsHasTerm (snd (foldl index_document st ds)) t =
     (case documentCntsHasTerm (snd st) t of
        Some n \<Rightarrow> Some n
      | None \<Rightarrow> if \<exists>d\<in>set ds. t \<in> set (tokenize (content d)) then Some 1 else None)"
proof (induction ds rule: rev_induct)
  case Nil
  show ?case by (simp split: option.splits)
next
  case (snoc d ds)
  show ?case
    by (simp add: index_document_fields count_documents_apply set_uniqueTerms snoc
        split: option.splits)
qed

lemma index_fold_tf_origin:
  "termFrequencies (snd (foldl index_document st ds)) ttl = Some tfm \<Longrightarrow>
     (termFrequencies (snd st) ttl = Some tfm
        \<and> docLengths (snd (foldl index_document st ds)) ttl = docLengths (snd st) ttl)
     \<or> (\<exists>d\<in>set ds. title d = ttl \<and> tfm = count_terms (tokenize (content d))
           \<and> docLengths (snd (foldl index_document st ds)) ttl
               = Some (length (tokenize (content d))))"
proof (induction ds arbitrary: tfm rule: rev_induct)
  case Nil
  then show ?case by simp
next
  case (snoc d ds)
  show ?case
  proof (cases "title d = ttl")
    case True
    with snoc.prems show ?thesis
      by (auto simp: index_document_fields)
  next
    case False
    with snoc.prems
    have "termFrequencies (snd (foldl index_document st ds)) ttl = Some tfm"
      by (simp add: index_document_fields)
    from snoc.IH [OF this] False show ?thesis
      by (auto simp: index_document_fields)
  qed
qed

lemma index_fold_tf_distinct:
  "distinct (map title ds) \<Longrightarrow> d \<in> set ds \<Longrightarrow>
     termFrequencies (snd (foldl index_document st ds)) (title d)
       = Some (count_terms (tokenize (content d)))"
proof (induction ds rule: rev_induct)
  case Nil
  then show ?case by simp
next
  case (snoc x ds)
  show ?case
  proof (cases "d = x")
    case True
    then show ?thesis by (simp add: index_document_fields)
  next
    case False
    with snoc.prems have d: "d \<in> set ds" and "title x \<noteq> title d" by auto
    with snoc show ?thesis by (simp add: index_document_fields)
  qed
qed

text \<open>The fields of a freshly built index.\<close>

lemma new_documents: "documents (BM25Service_new docs cfg) = docs"
  by (simp add: BM25Service_new_def initialize_def Let_def index_fold_documents)

lemma new_config:
  "config (BM25Service_new docs cfg)
     = \<lparr>k1 = (case k1_opt cfg of None \<Rightarrow> 1.5 | Some v \<Rightarrow> v),
        b = (case b_opt cfg of None \<Rightarrow> 0.75 | Some v \<Rightarrow> v)\<rparr>"
  by (simp add: BM25Service_new_def initialize_def Let_def index_fold_documents)

lemma new_idfCache: "idfCache (BM25Service_new docs cfg) = Map.empty"
  by (simp add: BM25Service_new_def initialize_def Let_def index_fold_documents)

lemma new_avgDocLength:
  "avgDocLength (BM25Service_new docs cfg)
     = real (sum_list (map (\<lambda>d. length (tokenize (content d))) docs)) / real (length docs)"
  by (simp add: BM25Service_new_def initialize_def Let_def index_fold_total)

lemma new_df:
  "documentCntsHasTerm (BM25Service_new docs cfg) t =
     (if \<exists>d\<in>set docs. t \<in> set (tokenize (content d)) then Some 1 else None)"
  by (simp add: BM25Service_new_def initialize_def Let_def index_fold_df)

lemma new_tf_origin:
  assumes "termFrequencies (BM25Service_new docs cfg) ttl = Some tfm"
  shows "\<exists>d\<in>set docs. title d = ttl \<and> tfm = count_terms (tokenize (content d))
           \<and> docLengths (BM25Service_new docs cfg) ttl = Some (length (tokenize (content d)))"
proof -
  let ?st = "(0::nat, \<lparr>documents = docs,
        config = \<lparr>k1 = (case k1_opt cfg of None \<Rightarrow> 1.5 | Some v \<Rightarrow> v),
                  b = (case b_opt cfg of None \<Rightarrow> 0.75 | Some v \<Rightarrow> v)\<rparr>,
        avgDocLength = 0, docLengths = Map.empty, termFrequencies = Map.empty,
        documentCntsHasTerm = Map.empty, idfCache = Map.empty\<rparr>)"
  from assms have "termFrequencies (snd (foldl index_document ?st docs)) ttl = Some tfm"
    by (simp add: BM25Service_new_def initialize_def Let_def)
  from index_fold_tf_origin [OF this] show ?thesis
    by (simp add: BM25Service_new_def initialize_def Let_def)
qed

lemma new_tf_distinct:
  "distinct (map title docs) \<Longrightarrow> d \<in> set docs \<Longrightarrow>
     termFrequencies (BM25Service_new docs cfg) (title d)
       = Some (count_terms (tokenize (content d)))"
  by (simp add: BM25Service_new_def initialize_def Let_def index_fold_tf_distinct)

section \<open>Properties of scoring\<close>

lemma same_index_refl: "same_index this this"
  by (simp add: same_index_def)

lemma same_index_fields:
  assumes "same_index this this'"
  shows "documents this' = documents this" "config this' = config this"
    "avgDocLength this' = avgDocLength this" "docLengths this' = docLengths this"
    "termFrequencies this' = termFrequencies this"
    "documentCntsHasTerm this' = documentCntsHasTerm this"
proof -
  from assms have e: "this'\<lparr>idfCache := idfCache this\<rparr> = this"
    by (simp add: same_index_def)
  show "documents this' = documents this" using arg_cong [OF e, of documents] by simp
  show "config this' = config this" using arg_cong [OF e, of config] by simp
  show "avgDocLength this' = avgDocLength this" using arg_cong [OF e, of avgDocLength] by simp
  show "docLengths this' = docLengths this" using arg_cong [OF e, of docLengths] by simp
  show "termFrequencies this' = termFrequencies this"
    using arg_cong [OF e, of termFrequencies] by simp
  show "documentCntsHasTerm this' = documentCntsHasTerm this"
    using arg_cong [OF e, of documentCntsHasTerm] by simp
qed

lemma same_index_trans:
  assumes "same_index x y" and "same_index y z"
  shows "same_index x z"
proof -
  from assms(2) have "z\<lparr>idfCache := idfCache y\<rparr> = y" by (simp add: same_index_def)
  then have "(z\<lparr>idfCache := idfCache y\<rparr>)\<lparr>idfCache := idfCache x\<rparr> = y\<lparr>idfCache := idfCache x\<rparr>"
    by simp
  then show ?thesis using assms(1) by (simp add: same_index_def)
qed

lemma same_index_idf_of:
  assumes "same_index this this'"
  shows "idf_of this' t = idf_of this t"
  by (simp add: idf_of_def same_index_fields [OF assms])

lemma same_index_term_score:
  assumes "same_index this this'"
  shows "term_score this' tfm dl t = term_score this tfm dl t"
  by (simp add: term_score_def Let_def same_index_fields [OF assms] same_index_idf_of [OF assms])

lemma same_index_cache_update: "same_index this (this\<lparr>idfCache := c\<rparr>)"
  by (simp add: same_index_def)

lemma calculateIDF_spec:
  assumes "cache_ok this"
  shows "fst (calculateIDF this t) = idf_of this t
    \<and> same_index this (snd (calculateIDF this t))
    \<and> cache_ok (snd (calculateIDF this t))"
proof (cases "idfCache this t")
  case None
  have "cache_ok (this\<lparr>idfCache := (idfCache this)(t \<mapsto> idf_of this t)\<rparr>)"
    using assms by (simp add: cache_ok_def idf_of_def)
  with None show ?thesis
    by (simp add: calculateIDF_def Let_def idf_of_def same_index_cache_update)
next
  case (Some v)
  with assms have "v = idf_of this t" by (simp add: cache_ok_def)
  with Some assms show ?thesis by (simp add: calculateIDF_def same_index_refl)
qed

lemma score_terms_spec:
  "cache_ok this \<Longrightarrow>
     fst (score_terms this tfm dl ts s) = s + sum_list (map (term_score this tfm dl) ts)
     \<and> same_index this (snd (score_terms this tfm dl ts s))
     \<and> cache_ok (snd (score_terms this tfm dl ts s))"
proof (induction ts arbitrary: this s)
  case Nil
  then show ?case by (simp add: same_index_refl)
next
  case (Cons t ts)
  show ?case
  proof (cases "(case tfm t of None \<Rightarrow> 0 | Some n \<Rightarrow> n) = (0::nat)")
    case True
    with Cons.IH [OF Cons.prems, of s] show ?thesis
      by (simp add: term_score_def)
  next
    case False
    let ?this' = "snd (calculateIDF this t)"
    from calculateIDF_spec [OF Cons.prems, of t]
    have idf: "fst (calculateIDF this t) = idf_of this t"
      and same: "same_index this ?this'" and ok: "cache_ok ?this'" by simp_all
    let ?s' = "s + term_score this tfm dl t"
    from Cons.IH [OF ok, of ?s']
    have IH: "fst (score_terms ?this' tfm dl ts ?s')
          = ?s' + sum_list (map (term_score ?this' tfm dl) ts)"
      "same_index ?this' (snd (score_terms ?this' tfm dl ts ?s'))"
      "cache_ok (snd (score_terms ?this' tfm dl ts ?s'))" by simp_all
    have unfold: "score_terms this tfm dl (t # ts) s = score_terms ?this' tfm dl ts ?s'"
      using False idf by (simp add: Let_def term_score_def same_index_fields [OF same])
    have "term_score ?this' = term_score this"
      by (intro ext) (rule same_index_term_score [OF same])
    then have "map (term_score ?this' tfm dl) ts = map (term_score this tfm dl) ts"
      by simp
    with IH unfold same show ?thesis
      by (auto intro: same_index_trans)
  qed
qed

lemma caculateScore_spec:
  assumes "cache_ok this"
  shows "fst (caculateScore this ttl q) = pure_score this ttl q
     \<and> same_index this (snd (caculateScore this ttl q))
     \<and> cache_ok (snd (caculateScore this ttl q))"
proof (cases "termFrequencies this ttl")
  case None
  with assms show ?thesis
    by (simp add: caculateScore_def pure_score_def same_index_refl)
next
  case (Some tfm)
  with score_terms_spec [OF assms, of tfm _ q 0] show ?thesis
    by (simp add: caculateScore_def pure_score_def)
qed

lemma same_index_pure_score:
  assumes "same_index this this'"
  shows "pure_score this' ttl q = pure_score this ttl q"
proof -
  have "term_score this' = term_score this"
    by (intro ext) (rule same_index_term_score [OF assms])
  then show ?thesis
    by (simp add: pure_score_def same_index_fields [OF assms] split: option.splits)
qed

lemma score_documents_spec:
  "cache_ok this \<Longrightarrow>
     fst (score_documents this q ds)
       = map (\<lambda>d. \<lparr>document = d, score = pure_score this (title d) q\<rparr>) ds
     \<and> same_index this (snd (score_documents this q ds))
     \<and> cache_ok (snd (score_documents this q ds))"
proof (induction ds arbitrary: this)
  case Nil
  then show ?case by (simp add: same_index_refl)
next
  case (Cons d ds)
  let ?this' = "snd (caculateScore this (title d) q)"
  from caculateScore_spec [OF Cons.prems, of "title d" q]
  have sc: "fst (caculateScore this (title d) q) = pure_score this (title d) q"
    and same: "same_index this ?this'" and ok: "cache_ok ?this'" by simp_all
  from Cons.IH [OF ok]
  have IH: "fst (score_documents ?this' q ds)
        = map (\<lambda>d. \<lparr>document = d, score = pure_score ?this' (title d) q\<rparr>) ds"
    "same_index ?this' (snd (score_documents ?this' q ds))"
    "cache_ok (snd (score_documents ?this' q ds))" by simp_all
  show ?case
    using sc IH same same_index_pure_score [OF same]
    by (auto simp: Let_def intro: same_index_trans)
qed

lemma new_cache_ok: "cache_ok (BM25Service_new docs cfg)"
  by (simp add: cache_ok_def new_idfCache)

lemma new_scores:
  "fst (score_documents (BM25Service_new docs cfg) q docs)
     = map (\<lambda>d. \<lparr>document = d, score = pure_score (BM25Service_new docs cfg) (title d) q\<rparr>) docs"
  using score_documents_spec [OF new_cache_ok] by blast

section \<open>Signs of the scores\<close>

lemma idf_formula_pos:
  fixes N df :: nat
  assumes "df \<le> N"
  shows "0 < ln ((real N - real df + 0.5) / (real df + 0.5) + 1)"
proof -
  have "0 < real N - real df + 0.5" using assms by simp
  moreover have "0 < real df + 0.5" by simp
  ultimately have "0 < (real N - real df + 0.5) / (real df + 0.5)"
    by (rule divide_pos_pos)
  then have "1 < (real N - real df + 0.5) / (real df + 0.5) + 1" by linarith
  then show ?thesis by (rule ln_gt_zero)
qed

lemma new_idf_pos: "0 < idf_of (BM25Service_new docs cfg) t"
proof -
  have "(case documentCntsHasTerm (BM25Service_new docs cfg) t of None \<Rightarrow> 0 | Some d \<Rightarrow> d)
      \<le> length (documents (BM25Service_new docs cfg))"
  proof (cases "\<exists>d\<in>set docs. t \<in> set (tokenize (content d))")
    case True
    then have "docs \<noteq> []" by auto
    then have "1 \<le> length docs" by (cases docs) simp_all
    with True show ?thesis by (simp add: new_documents new_df)
  next
    case False
    then show ?thesis by (simp add: new_documents new_df)
  qed
  then show ?thesis
    unfolding idf_of_def by (rule idf_formula_pos)
qed

lemma sum_list_all_zero: "\<forall>x\<in>set xs. x = (0::real) \<Longrightarrow> sum_list xs = 0"
  by (induction xs) simp_all

lemma new_avgDocLength_nonneg: "0 \<le> avgDocLength (BM25Service_new docs cfg)"
  by (simp add: new_avgDocLength)

lemma term_score_nonneg:
  assumes "0 \<le> k1 (config this)" and "0 \<le> b (config this)" and "b (config this) \<le> 1"
    and "0 \<le> avgDocLength this" and "0 \<le> idf_of this t"
  shows "0 \<le> term_score this tfm dl t"
proof (cases "(case tfm t of None \<Rightarrow> 0 | Some n \<Rightarrow> n) = (0::nat)")
  case True
  then show ?thesis by (simp add: term_score_def)
next
  case False
  let ?tf = "real (case tfm t of None \<Rightarrow> 0 | Some n \<Rightarrow> n)"
  have tf: "0 < ?tf" using False by simp
  have "0 \<le> real dl / avgDocLength this" using assms(4) by simp
  with assms(2) have "0 \<le> b (config this) * (real dl / avgDocLength this)"
    by (rule mult_nonneg_nonneg)
  then have "0 \<le> 1 - b (config this) + b (config this) * (real dl / avgDocLength this)"
    using assms(3) by linarith
  with assms(1) have "0 \<le> k1 (config this)
      * (1 - b (config this) + b (config this) * (real dl / avgDocLength this))"
    by (rule mult_nonneg_nonneg)
  then have den: "0 < ?tf + k1 (config this)
      * (1 - b (config this) + b (config this) * (real dl / avgDocLength this))"
    using tf by linarith
  have num: "0 \<le> ?tf * (k1 (config this) + 1)" using tf assms(1) by simp
  have "0 \<le> idf_of this t * (?tf * (k1 (config this) + 1)
      / (?tf + k1 (config this)
          * (1 - b (config this) + b (config this) * (real dl / avgDocLength this))))"
    using mult_nonneg_nonneg [OF assms(5) divide_nonneg_pos [OF num den]] .
  with False show ?thesis by (simp add: term_score_def Let_def)
qed

lemma new_pure_score_nonneg:
  assumes "0 \<le> k1 (config (BM25Service_new docs cfg))"
    and "0 \<le> b (config (BM25Service_new docs cfg))"
    and "b (config (BM25Service_new docs cfg)) \<le> 1"
  shows "0 \<le> pure_score (BM25Service_new docs cfg) ttl q"
proof (cases "termFrequencies (BM25Service_new docs cfg) ttl")
  case None
  then show ?thesis by (simp add: pure_score_def)
next
  case (Some tfm)
  have "0 \<le> term_score (BM25Service_new docs cfg) tfm dl t" for dl t
    using term_score_nonneg [OF assms new_avgDocLength_nonneg] new_idf_pos [of docs cfg t]
    by (simp add: less_imp_le)
  then show ?thesis
    using Some by (auto simp: pure_score_def intro!: sum_list_nonneg)
qed

lemma pure_score_nonzero_term:
  assumes "pure_score this ttl q \<noteq> 0"
  shows "\<exists>tfm t. termFrequencies this ttl = Some tfm \<and> t \<in> set q
           \<and> (case tfm t of None \<Rightarrow> 0 | Some n \<Rightarrow> n) \<noteq> (0::nat)"
proof (cases "termFrequencies this ttl")
  case None
  with assms show ?thesis by (simp add: pure_score_def)
next
  case (Some tfm)
  let ?dl = "case docLengths this ttl of None \<Rightarrow> 0 | Some n \<Rightarrow> n"
  have "\<exists>t\<in>set q. term_score this tfm ?dl t \<noteq> 0"
  proof (rule ccontr)
    assume "\<not> (\<exists>t\<in>set q. term_score this tfm ?dl t \<noteq> 0)"
    then have "\<forall>x\<in>set (map (term_score this tfm ?dl) q). x = 0" by simp
    then have "sum_list (map (term_score this tfm ?dl) q) = 0"
      by (rule sum_list_all_zero)
    with Some assms show False by (simp add: pure_score_def)
  qed
  then obtain t where "t \<in> set q" and "term_score this tfm ?dl t \<noteq> 0" by blast
  then have "(case tfm t of None \<Rightarrow> 0 | Some n \<Rightarrow> n) \<noteq> (0::nat)"
    by (auto simp: term_score_def Let_def split: if_splits)
  with Some \<open>t \<in> set q\<close> show ?thesis by blast
qed

text \<open>
  Where the score divides by the average length, the average is positive: a document
  with a term to score has a token, so the collection has a document and a token.
\<close>

lemma new_avgDocLength_pos:
  assumes "termFrequencies (BM25Service_new docs cfg) ttl = Some tfm"
    and "(case tfm t of None \<Rightarrow> 0 | Some n \<Rightarrow> n) \<noteq> (0::nat)"
  shows "0 < avgDocLength (BM25Service_new docs cfg)"
proof -
  from new_tf_origin [OF assms(1)] obtain d
    where d: "d \<in> set docs" and tfm: "tfm = count_terms (tokenize (content d))" by blast
  from assms(2) tfm have "t \<in> set (tokenize (content d))"
    using count_terms_nonzero by blast
  then have "0 < length (tokenize (content d))" by (cases "tokenize (content d)") auto
  moreover have "length (tokenize (content d))
      \<le> sum_list (map (\<lambda>d. length (tokenize (content d))) docs)"
    using d by (simp add: member_le_sum_list)
  ultimately have "0 < sum_list (map (\<lambda>d. length (tokenize (content d))) docs)" by linarith
  moreover have "0 < length docs" using d by (cases docs) auto
  ultimately show ?thesis by (simp add: new_avgDocLength)
qed

lemma search_subset:
  "set (fst (search this q topK)) \<subseteq> set (fst (score_documents this (tokenize q) (documents this)))"
proof -
  have "set (slice0 xs e) \<subseteq> set xs" for xs :: "RankedResult list" and e
    by (auto simp: slice0_def dest: in_set_takeD)
  then show ?thesis
    by (fastforce simp: search_def Let_def)
qed

lemma search_positive: "r \<in> set (fst (search this q topK)) \<Longrightarrow> 0 < score r"
  by (simp add: search_def Let_def)

section \<open>Sorting, truncation and the positive scores\<close>

lemma filter_take_sorted:
  fixes f :: "'a \<Rightarrow> real"
  shows "sorted (map f xs) \<Longrightarrow>
     filter (\<lambda>x. f x < c) (take k xs) = take k (filter (\<lambda>x. f x < c) xs)"
proof (induction xs arbitrary: k)
  case Nil
  show ?case by simp
next
  case (Cons x xs)
  show ?case
  proof (cases k)
    case 0
    then show ?thesis by simp
  next
    case (Suc k')
    show ?thesis
    proof (cases "f x < c")
      case True
      with Cons Suc show ?thesis by simp
    next
      case False
      from Cons.prems have "\<forall>y\<in>set xs. f x \<le> f y" by simp
      with False have "\<forall>y\<in>set xs. \<not> f y < c" by fastforce
      then have "filter (\<lambda>x. f x < c) xs = []" and "filter (\<lambda>x. f x < c) (take k' xs) = []"
        by (auto simp: filter_empty_conv dest: in_set_takeD)
      with False Suc show ?thesis by simp
    qed
  qed
qed

lemma search_length:
  assumes "0 \<le> topK"
  shows "length (fst (search this q topK))
     = min (nat topK)
         (length (filter (\<lambda>r. 0 < score r)
            (fst (score_documents this (tokenize q) (documents this)))))"
proof -
  let ?rs = "fst (score_documents this (tokenize q) (documents this))"
  let ?L = "sort_key (\<lambda>r. - score r) ?rs"
  have "fst (search this q topK) = filter (\<lambda>r. - score r < 0) (take (nat topK) ?L)"
    using assms by (simp add: search_def Let_def slice0_def)
  also have "\<dots> = take (nat topK) (filter (\<lambda>r. - score r < 0) ?L)"
    by (rule filter_take_sorted) simp
  also have "filter (\<lambda>r. - score r < 0) ?L = sort_key (\<lambda>r. - score r) (filter (\<lambda>r. - score r < 0) ?rs)"
    by (rule filter_sort)
  finally show ?thesis by simp
qed

lemma search_sorted: "sorted_wrt (\<lambda>x y. score y \<le> score x) (fst (search this q topK))"
proof -
  let ?rs = "fst (score_documents this (tokenize q) (documents this))"
  let ?L = "sort_key (\<lambda>r. - score r) ?rs"
  have "sorted (map (\<lambda>r. - score r) ?L)" by simp
  then have "sorted_wrt (\<lambda>x y. score y \<le> score x) ?L"
    by (simp add: sorted_wrt_map)
  then have "sorted_wrt (\<lambda>x y. score y \<le> score x) (slice0 ?L topK)"
    by (simp add: slice0_def sorted_wrt_take)
  then have "sorted_wrt (\<lambda>x y. score y \<le> score x)
      (filter (\<lambda>r. 0 < score r) (slice0 ?L topK))"
    by (rule sorted_wrt_filter)
  then show ?thesis by (simp add: search_def Let_def)
qed

section \<open>The claims about the ranking engine\<close>

lemmas tokenize_eval =
  tokenize_def js_def toLowerCase_def replace_nonword_def lower_unit_def is_upper_def
  is_word_def is_space_def is_lower_def is_digit_def split_ws.simps(2)

lemmas index_eval =
  BM25Service_new_def initialize_def index_document_def count_documents_def uniqueTerms_def
  count_terms_def default_config_def

lemmas search_eval = search_def caculateScore_def calculateIDF_def slice0_def Let_def

text \<open>
  Claim C1 says that the stored document frequency of a term is the number of documents
  whose tokens contain it. The code stores \<^verbatim>\<open>get(term) ?? 0 + 1\<close>, which is
  \<^verbatim>\<open>get(term) ?? 1\<close>: on the collection \<open>df_docs\<close> the term \<open>inflation\<close> is in both
  documents and its stored frequency is \<open>1\<close>.
\<close>

theorem C1_document_frequency_stuck_at_one:
  "documentCntsHasTerm (BM25Service_new df_docs default_config) (js ''inflation'') = Some 1
   \<and> length (filter (\<lambda>d. js ''inflation'' \<in> set (tokenize (content d))) df_docs) = 2"
  by (simp add: df_docs_def index_eval tokenize_eval)

text \<open>
  Claim C2 gives the score as a sum of \<open>IDF * tf * (k1 + 1) / (tf + k1 * (1 - b + b *
  (docLen / avgDocLen)))\<close> with \<open>IDF = ln ((N - df + 0.5) / (df + 0.5) + 1)\<close> and \<open>df\<close> the
  number of documents containing the term. On the worked example the code computes the
  scores by that formula with \<open>N = 2\<close> and the stored \<open>df = 1\<close>, so with \<open>IDF = ln 2\<close>,
  where the closed form with \<open>df = 2\<close> has \<open>IDF = ln (6 / 5)\<close>; neither score is the one
  of the closed form.
\<close>

theorem C2_worked_example_scores:
  "map score (fst (score_documents (BM25Service_new worked_docs default_config)
                     (tokenize (js ''gdp'')) worked_docs))
     = [ln ((2 - 1 + 0.5) / (1 + 0.5) + 1)
          * (3 * (1.5 + 1) / (3 + 1.5 * (1 - 0.75 + 0.75 * (10 / 7.5)))),
        ln ((2 - 1 + 0.5) / (1 + 0.5) + 1)
          * (1 * (1.5 + 1) / (1 + 1.5 * (1 - 0.75 + 0.75 * (5 / 7.5))))]
   \<and> documentCntsHasTerm (BM25Service_new worked_docs default_config) (js ''gdp'') = Some 1
   \<and> (ln ((2 - 1 + 0.5) / (1 + 0.5) + 1)
          * (3 * (1.5 + 1) / (3 + 1.5 * (1 - 0.75 + 0.75 * (10 / 7.5)))) :: real)
       \<noteq> ln ((2 - 2 + 0.5) / (2 + 0.5) + 1)
          * (3 * (1.5 + 1) / (3 + 1.5 * (1 - 0.75 + 0.75 * (10 / 7.5))))
   \<and> (ln ((2 - 1 + 0.5) / (1 + 0.5) + 1)
          * (1 * (1.5 + 1) / (1 + 1.5 * (1 - 0.75 + 0.75 * (5 / 7.5)))) :: real)
       \<noteq> ln ((2 - 2 + 0.5) / (2 + 0.5) + 1)
          * (1 * (1.5 + 1) / (1 + 1.5 * (1 - 0.75 + 0.75 * (5 / 7.5))))"
proof -
  have code1: "ln ((2 - 1 + 0.5) / (1 + 0.5) + 1)
          * (3 * (1.5 + 1) / (3 + 1.5 * (1 - 0.75 + 0.75 * (10 / 7.5))))
      = ln 2 * (20 / 13 :: real)" by simp
  have code2: "ln ((2 - 1 + 0.5) / (1 + 0.5) + 1)
          * (1 * (1.5 + 1) / (1 + 1.5 * (1 - 0.75 + 0.75 * (5 / 7.5))))
      = ln 2 * (20 / 17 :: real)" by simp
  have claim1: "ln ((2 - 2 + 0.5) / (2 + 0.5) + 1)
          * (3 * (1.5 + 1) / (3 + 1.5 * (1 - 0.75 + 0.75 * (10 / 7.5))))
      = ln (6 / 5) * (20 / 13 :: real)" by simp
  have claim2: "ln ((2 - 2 + 0.5) / (2 + 0.5) + 1)
          * (1 * (1.5 + 1) / (1 + 1.5 * (1 - 0.75 + 0.75 * (5 / 7.5))))
      = ln (6 / 5) * (20 / 17 :: real)" by simp
  have ln_ne: "ln (2::real) \<noteq> ln (6 / 5)" by simp
  have scores: "map score (fst (score_documents (BM25Service_new worked_docs default_config)
                     (tokenize (js ''gdp'')) worked_docs))
     = [ln 2 * (20 / 13), ln 2 * (20 / 17)]"
    by (simp add: worked_docs_def index_eval tokenize_eval search_eval)
  have df: "documentCntsHasTerm (BM25Service_new worked_docs default_config) (js ''gdp'')
      = Some 1"
    by (simp add: worked_docs_def index_eval tokenize_eval)
  have ne1: "ln 2 * (20 / 13 :: real) \<noteq> ln (6 / 5) * (20 / 13)" using ln_ne by simp
  have ne2: "ln 2 * (20 / 17 :: real) \<noteq> ln (6 / 5) * (20 / 17)" using ln_ne by simp
  show ?thesis
    unfolding code1 code2 claim1 claim2 using scores df ne1 ne2 by blast
qed

text \<open>
  Claim C7. \<^verbatim>\<open>topK\<close> is a number of results, so it is not negative. \<^verbatim>\<open>search\<close> returns at
  most \<^verbatim>\<open>topK\<close> results, at least as many as the smaller of \<^verbatim>\<open>topK\<close> and the number of
  documents with a positive score, and the results are in descending order of score.
\<close>

theorem C7_search_topK:
  assumes "0 \<le> topK"
  shows "int (length (fst (search (BM25Service_new docs cfg) q topK))) \<le> topK
   \<and> min topK (int (length (filter (\<lambda>r. 0 < score r)
          (fst (score_documents (BM25Service_new docs cfg) (tokenize q) docs)))))
       \<le> int (length (fst (search (BM25Service_new docs cfg) q topK)))
   \<and> sorted_wrt (\<lambda>x y. score y \<le> score x) (fst (search (BM25Service_new docs cfg) q topK))"
proof -
  have "length (fst (search (BM25Service_new docs cfg) q topK))
     = min (nat topK)
         (length (filter (\<lambda>r. 0 < score r)
            (fst (score_documents (BM25Service_new docs cfg) (tokenize q) docs))))"
    using search_length [OF assms, of "BM25Service_new docs cfg" q] by (simp add: new_documents)
  moreover have "int (min (nat topK) n) \<le> topK \<and> min topK (int n) \<le> int (min (nat topK) n)"
    for n :: nat
    using assms by (auto simp: min_def)
  ultimately show ?thesis
    using search_sorted [of "BM25Service_new docs cfg" q topK] by simp
qed

text \<open>
  The theorem on the two documents of \<open>twin_docs\<close>, both matching the query, with
  \<^verbatim>\<open>topK = 1\<close>: one result comes back.
\<close>

theorem C7_search_topK_witness:
  "length (fst (search (BM25Service_new twin_docs default_config) (js ''a'') 1)) = 1
   \<and> int (length (fst (search (BM25Service_new twin_docs default_config) (js ''a'') 1))) \<le> 1
   \<and> min 1 (int (length (filter (\<lambda>r. 0 < score r)
          (fst (score_documents (BM25Service_new twin_docs default_config)
                  (tokenize (js ''a'')) twin_docs)))))
       \<le> int (length (fst (search (BM25Service_new twin_docs default_config) (js ''a'') 1)))
   \<and> sorted_wrt (\<lambda>x y. score y \<le> score x)
        (fst (search (BM25Service_new twin_docs default_config) (js ''a'') 1))"
proof -
  have "length (fst (search (BM25Service_new twin_docs default_config) (js ''a'') 1)) = 1"
    by (simp add: twin_docs_def index_eval tokenize_eval search_eval)
  then show ?thesis
    using C7_search_topK [of 1 twin_docs default_config "js ''a''"] by simp
qed

text \<open>
  Claim C8, with hyper-parameters \<open>k1 \<ge> 0\<close> and \<open>0 \<le> b \<le> 1\<close> (the defaults are such):
  the score computed for every document of the collection is not negative, and every
  result of \<^verbatim>\<open>search\<close> has a positive score. The index is keyed by title, so a result
  is known to share a token with the query when the titles of the collection are
  pairwise distinct.
\<close>

theorem C8_scores_nonnegative_results_positive:
  assumes "0 \<le> k1 (config (BM25Service_new docs cfg))"
    and "0 \<le> b (config (BM25Service_new docs cfg))"
    and "b (config (BM25Service_new docs cfg)) \<le> 1"
  shows "(\<forall>r\<in>set (fst (score_documents (BM25Service_new docs cfg) (tokenize q) docs)).
            0 \<le> score r)
   \<and> (\<forall>r\<in>set (fst (search (BM25Service_new docs cfg) q topK)). 0 < score r)
   \<and> (distinct (map title docs) \<longrightarrow>
        (\<forall>r\<in>set (fst (search (BM25Service_new docs cfg) q topK)).
            set (tokenize (content (document r))) \<inter> set (tokenize q) \<noteq> {}))"
proof (intro conjI impI ballI)
  fix r
  assume "r \<in> set (fst (score_documents (BM25Service_new docs cfg) (tokenize q) docs))"
  then have "r \<in> (\<lambda>d. \<lparr>document = d,
        score = pure_score (BM25Service_new docs cfg) (title d) (tokenize q)\<rparr>) ` set docs"
    by (simp add: new_scores)
  then obtain d where "r = \<lparr>document = d,
        score = pure_score (BM25Service_new docs cfg) (title d) (tokenize q)\<rparr>"
    by blast
  then have "score r = pure_score (BM25Service_new docs cfg) (title d) (tokenize q)"
    by simp
  then show "0 \<le> score r"
    using new_pure_score_nonneg [OF assms] by simp
next
  fix r
  assume "r \<in> set (fst (search (BM25Service_new docs cfg) q topK))"
  then show "0 < score r" by (rule search_positive)
next
  fix r
  assume dist: "distinct (map title docs)"
    and r: "r \<in> set (fst (search (BM25Service_new docs cfg) q topK))"
  from r have pos: "0 < score r" by (rule search_positive)
  from r search_subset [of "BM25Service_new docs cfg" q topK]
  have "r \<in> set (fst (score_documents (BM25Service_new docs cfg) (tokenize q) docs))"
    by (auto simp: new_documents)
  then have "r \<in> (\<lambda>d. \<lparr>document = d,
        score = pure_score (BM25Service_new docs cfg) (title d) (tokenize q)\<rparr>) ` set docs"
    by (simp add: new_scores)
  then obtain d where d: "d \<in> set docs" and r_eq: "r = \<lparr>document = d,
        score = pure_score (BM25Service_new docs cfg) (title d) (tokenize q)\<rparr>"
    by blast
  from r_eq have doc: "document r = d"
    and sc: "score r = pure_score (BM25Service_new docs cfg) (title d) (tokenize q)"
    by simp_all
  from pos sc have "pure_score (BM25Service_new docs cfg) (title d) (tokenize q) \<noteq> 0" by simp
  from pure_score_nonzero_term [OF this] obtain tfm t
    where tfm: "termFrequencies (BM25Service_new docs cfg) (title d) = Some tfm"
      and t: "t \<in> set (tokenize q)"
      and tf: "(case tfm t of None \<Rightarrow> 0 | Some n \<Rightarrow> n) \<noteq> (0::nat)" by blast
  from new_tf_distinct [OF dist d, of cfg] tfm
  have "tfm = count_terms (tokenize (content d))" by simp
  with tf have "t \<in> set (tokenize (content d))"
    using count_terms_nonzero by blast
  with t doc show "set (tokenize (content (document r))) \<inter> set (tokenize q) \<noteq> {}" by auto
qed

text \<open>
  The theorem on \<open>twin_docs\<close> with the default configuration and the query \<open>a\<close>: the
  titles are distinct, both documents score \<open>ln 2\<close> and both are returned.
\<close>

theorem C8_scores_witness:
  "map score (fst (search (BM25Service_new twin_docs default_config) (js ''a'') 7))
     = [ln 2, ln 2]
   \<and> 0 \<le> score (hd (fst (score_documents (BM25Service_new twin_docs default_config)
                         (tokenize (js ''a'')) twin_docs)))
   \<and> 0 < score (hd (fst (search (BM25Service_new twin_docs default_config) (js ''a'') 7)))
   \<and> set (tokenize (content (document
          (hd (fst (search (BM25Service_new twin_docs default_config) (js ''a'') 7))))))
        \<inter> set (tokenize (js ''a'')) \<noteq> {}"
proof -
  have cfg: "0 \<le> k1 (config (BM25Service_new twin_docs default_config))"
    "0 \<le> b (config (BM25Service_new twin_docs default_config))"
    "b (config (BM25Service_new twin_docs default_config)) \<le> 1"
    by (simp_all add: new_config default_config_def)
  have dist: "distinct (map title twin_docs)"
    by (simp add: twin_docs_def js_def)
  have ev: "map score (fst (search (BM25Service_new twin_docs default_config) (js ''a'') 7))
      = [ln 2, ln 2]"
    by (simp add: twin_docs_def index_eval tokenize_eval search_eval)
  then have "fst (search (BM25Service_new twin_docs default_config) (js ''a'') 7) \<noteq> []"
    by auto
  then have in_search: "hd (fst (search (BM25Service_new twin_docs default_config) (js ''a'') 7))
      \<in> set (fst (search (BM25Service_new twin_docs default_config) (js ''a'') 7))"
    by simp
  have "fst (score_documents (BM25Service_new twin_docs default_config)
          (tokenize (js ''a'')) twin_docs) \<noteq> []"
    unfolding new_scores by (simp add: twin_docs_def)
  then have in_scores: "hd (fst (score_documents (BM25Service_new twin_docs default_config)
          (tokenize (js ''a'')) twin_docs))
      \<in> set (fst (score_documents (BM25Service_new twin_docs default_config)
          (tokenize (js ''a'')) twin_docs))"
    by simp
  from C8_scores_nonnegative_results_positive [OF cfg, of "js ''a''" 7] dist in_search in_scores ev
  show ?thesis by blast
qed

text \<open>
  On \<open>same_title_docs\<close> the second document overwrites the statistics of the first,
  which has the same title. For the query \<open>bar\<close> the first document, whose only token is
  \<open>foo\<close>, is returned, and first. With \<open>k1 = -1.5\<close> and \<open>b = 0\<close> the one document of
  \<open>single_doc\<close> gets a negative score for the query \<open>a\<close>.
\<close>

theorem C8_same_title_counterexample:
  "map document
     (fst (search (BM25Service_new same_title_docs default_config) (js ''bar'') 7))
     = [\<lparr>title = js ''t'', content = js ''foo''\<rparr>, \<lparr>title = js ''t'', content = js ''bar''\<rparr>]
   \<and> tokenize (js ''foo'') = [js ''foo'']
   \<and> tokenize (js ''bar'') = [js ''bar'']
   \<and> js ''foo'' \<noteq> js ''bar''
   \<and> map score (fst (score_documents (BM25Service_new single_doc negative_k1_config)
                        (tokenize (js ''a'')) single_doc))
       = [- (2 * ln (4 / 3))]
   \<and> - (2 * ln (4 / 3)) < (0::real)"
proof -
  have "map document
     (fst (search (BM25Service_new same_title_docs default_config) (js ''bar'') 7))
     = [\<lparr>title = js ''t'', content = js ''foo''\<rparr>, \<lparr>title = js ''t'', content = js ''bar''\<rparr>]
   \<and> tokenize (js ''foo'') = [js ''foo'']
   \<and> tokenize (js ''bar'') = [js ''bar'']
   \<and> js ''foo'' \<noteq> js ''bar''"
    by (simp add: same_title_docs_def index_eval tokenize_eval search_eval)
  moreover have "map score (fst (score_documents (BM25Service_new single_doc negative_k1_config)
                        (tokenize (js ''a'')) single_doc))
       = [- (2 * ln (4 / 3))]"
    by (simp add: single_doc_def negative_k1_config_def index_eval tokenize_eval search_eval)
  moreover have "- (2 * ln (4 / 3)) < (0::real)" by simp
  ultimately show ?thesis by blast
qed

section \<open>The claims about the robots policy cache\<close>

lemma isUrlAllowed_miss:
  assumes "new_URL_origin env targetUrl = Some origin"
    and "robotsCache st (origin @ js ''/robots.txt'') = None"
  shows "isUrlAllowed env st targetUrl userAgent =
     (case robots_decision env (net env (length (requests st)) (origin @ js ''/robots.txt''))
             (origin @ js ''/robots.txt'') targetUrl userAgent of
        Inr isAllowed \<Rightarrow>
          (Inr isAllowed,
           st\<lparr>requests := requests st @ [origin @ js ''/robots.txt''],
              robotsCache := (robotsCache st)(origin @ js ''/robots.txt'' \<mapsto> isAllowed)\<rparr>)
      | Inl e \<Rightarrow>
          if e = AbortError
          then (Inr False, st\<lparr>requests := requests st @ [origin @ js ''/robots.txt'']\<rparr>)
          else (Inr True,
                st\<lparr>requests := requests st @ [origin @ js ''/robots.txt''],
                   robotsCache := (robotsCache st)(origin @ js ''/robots.txt'' \<mapsto> True)\<rparr>))"
  using assms
  by (simp add: isUrlAllowed_def Let_def split: sum.splits js_error.splits)

lemma isUrlAllowed_hit:
  assumes "new_URL_origin env targetUrl = Some origin"
    and "robotsCache st (origin @ js ''/robots.txt'') = Some allowed"
  shows "isUrlAllowed env st targetUrl userAgent = (Inr allowed, st)"
  using assms by (simp add: isUrlAllowed_def Let_def)

text \<open>
  Claim C3. The robots.txt of the target's origin is not cached. When its request fails
  with the \<^verbatim>\<open>AbortError\<close> of a timeout, \<^verbatim>\<open>isUrlAllowed\<close> answers \<^verbatim>\<open>false\<close>, the cache
  is as before, and the next call for a URL of that origin requests the robots.txt again.
  When the request fails otherwise (it throws another error, or the response is not ok),
  the answer is \<^verbatim>\<open>true\<close>, it is cached, and the next call for that origin answers
  \<^verbatim>\<open>true\<close> without a request. A failure while the text of the response is read is
  treated alike.
\<close>

theorem C3_robots_fetch_failure:
  assumes "new_URL_origin env targetUrl = Some origin"
    and "robotsCache st (origin @ js ''/robots.txt'') = None"
    and "new_URL_origin env nextUrl = Some origin"
  shows "let robotsUrl = origin @ js ''/robots.txt'';
             fetched = net env (length (requests st)) robotsUrl;
             r = isUrlAllowed env st targetUrl userAgent
         in (fetched = Throws AbortError
               \<or> (\<exists>resp. fetched = Responds resp \<and> resp_ok resp \<and> resp_text resp = Inl AbortError)
             \<longrightarrow> r = (Inr False, st\<lparr>requests := requests st @ [robotsUrl]\<rparr>)
                 \<and> robotsCache (snd r) = robotsCache st
                 \<and> requests (snd (isUrlAllowed env (snd r) nextUrl nextAgent))
                     = requests st @ [robotsUrl, robotsUrl])
          \<and> ((\<exists>e. e \<noteq> AbortError \<and> fetched = Throws e)
               \<or> (\<exists>resp. fetched = Responds resp \<and> \<not> resp_ok resp)
               \<or> (\<exists>resp e. e \<noteq> AbortError \<and> fetched = Responds resp \<and> resp_ok resp
                      \<and> resp_text resp = Inl e)
             \<longrightarrow> r = (Inr True,
                       st\<lparr>requests := requests st @ [robotsUrl],
                          robotsCache := (robotsCache st)(robotsUrl \<mapsto> True)\<rparr>)
                 \<and> isUrlAllowed env (snd r) nextUrl nextAgent = (Inr True, snd r))"
proof -
  let ?robotsUrl = "origin @ js ''/robots.txt''"
  let ?fetched = "net env (length (requests st)) ?robotsUrl"
  let ?r = "isUrlAllowed env st targetUrl userAgent"
  let ?st' = "st\<lparr>requests := requests st @ [?robotsUrl]\<rparr>"
  have timeout: "?r = (Inr False, ?st') \<and> robotsCache (snd ?r) = robotsCache st
      \<and> requests (snd (isUrlAllowed env (snd ?r) nextUrl nextAgent))
          = requests st @ [?robotsUrl, ?robotsUrl]"
    if "robots_decision env ?fetched ?robotsUrl targetUrl userAgent = Inl AbortError"
  proof -
    from that have r: "?r = (Inr False, ?st')"
      by (simp add: isUrlAllowed_miss [OF assms(1,2)])
    have miss: "robotsCache ?st' ?robotsUrl = None" using assms(2) by simp
    have "requests (snd (isUrlAllowed env ?st' nextUrl nextAgent)) = requests ?st' @ [?robotsUrl]"
      by (simp add: isUrlAllowed_miss [OF assms(3) miss] split: sum.splits)
    with r show ?thesis by simp
  qed
  have other: "?r = (Inr True, ?st'\<lparr>robotsCache := (robotsCache st)(?robotsUrl \<mapsto> True)\<rparr>)
      \<and> isUrlAllowed env (snd ?r) nextUrl nextAgent = (Inr True, snd ?r)"
    if "robots_decision env ?fetched ?robotsUrl targetUrl userAgent = Inl e" and "e \<noteq> AbortError"
    for e
  proof -
    from that have r: "?r = (Inr True, ?st'\<lparr>robotsCache := (robotsCache st)(?robotsUrl \<mapsto> True)\<rparr>)"
      by (simp add: isUrlAllowed_miss [OF assms(1,2)])
    have hit: "robotsCache (?st'\<lparr>robotsCache := (robotsCache st)(?robotsUrl \<mapsto> True)\<rparr>) ?robotsUrl
        = Some True" by simp
    from r isUrlAllowed_hit [OF assms(3) hit] show ?thesis by simp
  qed
  have case_timeout: "robots_decision env ?fetched ?robotsUrl targetUrl userAgent = Inl AbortError"
    if "?fetched = Throws AbortError
        \<or> (\<exists>resp. ?fetched = Responds resp \<and> resp_ok resp \<and> resp_text resp = Inl AbortError)"
    using that by (auto simp: robots_decision_def)
  have case_other: "\<exists>e. e \<noteq> AbortError
        \<and> robots_decision env ?fetched ?robotsUrl targetUrl userAgent = Inl e"
    if "(\<exists>e. e \<noteq> AbortError \<and> ?fetched = Throws e)
        \<or> (\<exists>resp. ?fetched = Responds resp \<and> \<not> resp_ok resp)
        \<or> (\<exists>resp e. e \<noteq> AbortError \<and> ?fetched = Responds resp \<and> resp_ok resp
              \<and> resp_text resp = Inl e)"
    using that by (auto simp: robots_decision_def)
  show ?thesis
    unfolding Let_def
  proof (rule conjI; rule impI)
    assume a: "?fetched = Throws AbortError
        \<or> (\<exists>resp. ?fetched = Responds resp \<and> resp_ok resp \<and> resp_text resp = Inl AbortError)"
    from timeout [OF case_timeout [OF a]]
    show "?r = (Inr False, ?st') \<and> robotsCache (snd ?r) = robotsCache st
      \<and> requests (snd (isUrlAllowed env (snd ?r) nextUrl nextAgent))
          = requests st @ [?robotsUrl, ?robotsUrl]" .
  next
    assume a: "(\<exists>e. e \<noteq> AbortError \<and> ?fetched = Throws e)
        \<or> (\<exists>resp. ?fetched = Responds resp \<and> \<not> resp_ok resp)
        \<or> (\<exists>resp e. e \<noteq> AbortError \<and> ?fetched = Responds resp \<and> resp_ok resp
              \<and> resp_text resp = Inl e)"
    from case_other [OF a] obtain e where "e \<noteq> AbortError"
      and "robots_decision env ?fetched ?robotsUrl targetUrl userAgent = Inl e" by blast
    from other [OF this(2,1)]
    show "?r = (Inr True, ?st'\<lparr>robotsCache := (robotsCache st)(?robotsUrl \<mapsto> True)\<rparr>)
      \<and> isUrlAllowed env (snd ?r) nextUrl nextAgent = (Inr True, snd ?r)" .
  qed
qed

text \<open>
  The theorem in \<open>example_crawl_env\<close>: the first request times out and the call answers
  \<^verbatim>\<open>false\<close> with an empty cache; the second request, made by the next call, fails with
  a network error and the call answers \<^verbatim>\<open>true\<close>, now cached.
\<close>

theorem C3_robots_fetch_failure_witness:
  "isUrlAllowed example_crawl_env empty_crawl_state (js ''https://example.com/page'') USER_AGENT
     = (Inr False,
        \<lparr>robotsCache = Map.empty, requests = [js ''https://example.com/robots.txt'']\<rparr>)
   \<and> isUrlAllowed example_crawl_env
        \<lparr>robotsCache = Map.empty, requests = [js ''https://example.com/robots.txt'']\<rparr>
        (js ''https://example.com/page'') USER_AGENT
     = (Inr True,
        \<lparr>robotsCache = [js ''https://example.com/robots.txt'' \<mapsto> True],
         requests = [js ''https://example.com/robots.txt'', js ''https://example.com/robots.txt'']\<rparr>)"
proof -
  let ?st1 = "\<lparr>robotsCache = Map.empty, requests = [js ''https://example.com/robots.txt'']\<rparr>"
  have origin: "new_URL_origin example_crawl_env (js ''https://example.com/page'')
      = Some (js ''https://example.com'')"
    by (simp add: new_URL_origin_def example_crawl_env_def js_def)
  have url: "js ''https://example.com'' @ js ''/robots.txt'' = js ''https://example.com/robots.txt''"
    by (simp add: js_def)
  have miss0: "robotsCache empty_crawl_state (js ''https://example.com'' @ js ''/robots.txt'') = None"
    by (simp add: empty_crawl_state_def)
  have miss1: "robotsCache ?st1 (js ''https://example.com'' @ js ''/robots.txt'') = None"
    by simp
  have f0: "net example_crawl_env (length (requests empty_crawl_state))
      (js ''https://example.com'' @ js ''/robots.txt'') = Throws AbortError"
    by (simp add: example_crawl_env_def empty_crawl_state_def)
  have f1: "net example_crawl_env (length (requests ?st1))
      (js ''https://example.com'' @ js ''/robots.txt'') = Throws NetworkError"
    by (simp add: example_crawl_env_def)
  from C3_robots_fetch_failure [OF origin miss0 origin, of USER_AGENT USER_AGENT] f0
  have 1: "isUrlAllowed example_crawl_env empty_crawl_state (js ''https://example.com/page'')
      USER_AGENT = (Inr False, ?st1)"
    by (simp add: Let_def url empty_crawl_state_def)
  from C3_robots_fetch_failure [OF origin miss1 origin, of USER_AGENT USER_AGENT] f1
  have 2: "isUrlAllowed example_crawl_env ?st1 (js ''https://example.com/page'') USER_AGENT
     = (Inr True,
        \<lparr>robotsCache = [js ''https://example.com/robots.txt'' \<mapsto> True],
         requests = [js ''https://example.com/robots.txt'', js ''https://example.com/robots.txt'']\<rparr>)"
    by (simp add: Let_def url)
  from 1 2 show ?thesis by simp
qed

text \<open>
  Claim C4 says that \<^verbatim>\<open>isUrlAllowed\<close> never throws, whatever the string. The call
  \<^verbatim>\<open>new URL(targetUrl)\<close> stands before the \<^verbatim>\<open>try\<close> block, so a string that is not a
  URL makes \<^verbatim>\<open>isUrlAllowed\<close> throw the \<^verbatim>\<open>TypeError\<close>; a string without a colon is
  such a string. For a string that \<^verbatim>\<open>new URL\<close> accepts the function returns a boolean.
  The caller, \<^verbatim>\<open>crawlWebsite\<close>, catches what is thrown and returns \<^verbatim>\<open>null\<close>.
\<close>

theorem C4_isUrlAllowed_result:
  "(new_URL_origin env targetUrl \<noteq> None \<longrightarrow>
      (\<exists>allowed. fst (isUrlAllowed env st targetUrl userAgent) = Inr allowed))
   \<and> (new_URL_origin env targetUrl = None \<longrightarrow>
        isUrlAllowed env st targetUrl userAgent = (Inl TypeError, st)
        \<and> (sr_url result = targetUrl \<longrightarrow> crawlWebsite env st result = (None, st)))
   \<and> (58 \<notin> set targetUrl \<longrightarrow> new_URL_origin env targetUrl = None)"
proof (intro conjI impI)
  assume "new_URL_origin env targetUrl \<noteq> None"
  then obtain origin where origin: "new_URL_origin env targetUrl = Some origin" by blast
  show "\<exists>allowed. fst (isUrlAllowed env st targetUrl userAgent) = Inr allowed"
  proof (cases "robotsCache st (origin @ js ''/robots.txt'')")
    case None
    show ?thesis
      by (auto simp: isUrlAllowed_miss [OF origin None] split: sum.splits)
  next
    case (Some allowed)
    show ?thesis by (simp add: isUrlAllowed_hit [OF origin Some])
  qed
next
  assume none: "new_URL_origin env targetUrl = None"
  then show "isUrlAllowed env st targetUrl userAgent = (Inl TypeError, st)"
    by (simp add: isUrlAllowed_def)
  assume "sr_url result = targetUrl"
  with none show "crawlWebsite env st result = (None, st)"
    by (simp add: crawlWebsite_def isUrlAllowed_def)
next
  assume "58 \<notin> set targetUrl"
  then show "new_URL_origin env targetUrl = None" by (simp add: new_URL_origin_def)
qed

text \<open>
  The theorem at two strings: the page of \<open>example.com\<close> gets a boolean, and the string
  \<open>not a url\<close>, which has no colon, makes \<^verbatim>\<open>isUrlAllowed\<close> throw and \<^verbatim>\<open>crawlWebsite\<close>
  return \<^verbatim>\<open>null\<close>.
\<close>

theorem C4_isUrlAllowed_result_witness:
  "fst (isUrlAllowed example_crawl_env empty_crawl_state (js ''https://example.com/page'')
          USER_AGENT) = Inr False
   \<and> crawlWebsite example_crawl_env empty_crawl_state
        \<lparr>sr_title = js ''t'', sr_url = js ''not a url'', sr_description = []\<rparr>
       = (None, empty_crawl_state)"
proof -
  have origin: "new_URL_origin example_crawl_env (js ''https://example.com/page'') \<noteq> None"
    by (simp add: new_URL_origin_def example_crawl_env_def js_def)
  have ev: "fst (isUrlAllowed example_crawl_env empty_crawl_state
      (js ''https://example.com/page'') USER_AGENT) = Inr False"
    by (simp add: isUrlAllowed_def new_URL_origin_def example_crawl_env_def
        empty_crawl_state_def robots_decision_def Let_def js_def)
  have colon: "58 \<notin> set (js ''not a url'')" by (simp add: js_def)
  from C4_isUrlAllowed_result
    [of example_crawl_env "js ''not a url''" empty_crawl_state USER_AGENT
        "\<lparr>sr_title = js ''t'', sr_url = js ''not a url'', sr_description = []\<rparr>"]
    colon ev
  show ?thesis by simp
qed

text \<open>The string \<open>not a url\<close> makes \<^verbatim>\<open>isUrlAllowed\<close> throw.\<close>

theorem C4_malformed_url_counterexample:
  "isUrlAllowed example_crawl_env empty_crawl_state (js ''not a url'') USER_AGENT
     = (Inl TypeError, empty_crawl_state)"
  by (simp add: isUrlAllowed_def new_URL_origin_def js_def)

section \<open>The claims about the orchestrator\<close>

lemma isArticleExists_iff:
  "isArticleExists w keywordId
     = (\<exists>a\<in>set (article_table (db w)). art_keywordId a = keywordId)"
  by (auto simp: isArticleExists_def find_None_iff)

lemma isQuizExists_iff:
  "isQuizExists w keywordId
     = (\<exists>q\<in>set (quiz_table (db w)). \<exists>a\<in>set (article_table (db w)).
          art_id a = quiz_articleId q \<and> art_keywordId a = keywordId)"
  by (auto simp: isQuizExists_def find_None_iff list_ex_iff)

lemma findKeyword_absent:
  "(findKeyword w keywordId = Inl KEYWORD_NOT_FOUND)
     = (keywordId \<notin> kw_id ` set (keyword_table (db w)))"
proof -
  have "(find (\<lambda>k. kw_id k = keywordId) (keyword_table (db w)) = None)
      = (keywordId \<notin> kw_id ` set (keyword_table (db w)))"
    by (auto simp: find_None_iff)
  then show ?thesis
    by (cases "find (\<lambda>k. kw_id k = keywordId) (keyword_table (db w))")
      (simp_all add: findKeyword_def)
qed

lemma generateQuizzes_trace:
  "trace (snd (generateQuizzes env w keywordId))
     = trace w @ map (GenerateObjCall quizArraySchema) (quiz_prompts env w keywordId)"
  by (simp add: generateQuizzes_def Let_def split: option.splits)

lemma generateQuizzes_tables:
  "keyword_table (db (snd (generateQuizzes env w keywordId))) = keyword_table (db w)
   \<and> article_table (db (snd (generateQuizzes env w keywordId))) = article_table (db w)"
  by (simp add: generateQuizzes_def Let_def split: option.splits)

text \<open>
  Claim C5, as far as it holds. The keyword id is absent from the store. The second
  version of \<^verbatim>\<open>generateContents\<close> looks the keyword up first and fails with
  \<^verbatim>\<open>KEYWORD_NOT_FOUND\<close>, the store and the calls as before. The first version makes the
  existence checks first; it fails in the same way when no article refers to the id.
\<close>

theorem C5_absent_keyword:
  assumes "keywordId \<notin> kw_id ` set (keyword_table (db w))"
  shows "generateContents_v2 env w keywordId = (Inl KEYWORD_NOT_FOUND, w)
   \<and> (\<not> (\<exists>a\<in>set (article_table (db w)). art_keywordId a = keywordId) \<longrightarrow>
        generateContents env w keywordId = (Inl KEYWORD_NOT_FOUND, w))"
proof -
  from assms have "findKeyword w keywordId = Inl KEYWORD_NOT_FOUND"
    by (simp add: findKeyword_absent)
  then show ?thesis
    by (simp add: generateContents_v2_def generateContents_def isArticleExists_iff)
qed

text \<open>The theorem on the empty store.\<close>

theorem C5_absent_keyword_witness:
  "generateContents_v2 example_batch_env empty_world 1 = (Inl KEYWORD_NOT_FOUND, empty_world)
   \<and> generateContents example_batch_env empty_world 1 = (Inl KEYWORD_NOT_FOUND, empty_world)"
  using C5_absent_keyword [of 1 empty_world example_batch_env]
  by (simp add: empty_world_def)

text \<open>
  In \<open>orphan_world\<close> the keyword \<open>1\<close> is absent and an article and a quiz refer to it:
  the first version of \<^verbatim>\<open>generateContents\<close> fails with \<^verbatim>\<open>CONTENTS_ALREADY_EXISTS\<close>,
  since its existence checks come before the lookup of the keyword.
\<close>

theorem C5_existence_checks_first_counterexample:
  "findKeyword orphan_world 1 = Inl KEYWORD_NOT_FOUND
   \<and> generateContents example_batch_env orphan_world 1
       = (Inl CONTENTS_ALREADY_EXISTS, orphan_world)"
  by (simp add: findKeyword_def generateContents_def isArticleExists_def isQuizExists_def
      orphan_world_def example_article_def example_quiz_def)

text \<open>
  Claim C6. The keyword has an article and a quiz of one of its articles. Then
  \<^verbatim>\<open>generateContents\<close> fails with \<^verbatim>\<open>CONTENTS_ALREADY_EXISTS\<close> and the state it returns
  is the state it was given: the three tables are unchanged and no call to the search
  client, the crawler or the generation service was added. The same holds of the second
  version of the file when the keyword is in the store.
\<close>

theorem C6_contents_already_exist:
  assumes "\<exists>a\<in>set (article_table (db w)). art_keywordId a = keywordId"
    and "\<exists>q\<in>set (quiz_table (db w)). \<exists>a\<in>set (article_table (db w)).
           art_id a = quiz_articleId q \<and> art_keywordId a = keywordId"
  shows "generateContents env w keywordId = (Inl CONTENTS_ALREADY_EXISTS, w)
   \<and> (keywordId \<in> kw_id ` set (keyword_table (db w)) \<longrightarrow>
        generateContents_v2 env w keywordId = (Inl CONTENTS_ALREADY_EXISTS, w))"
proof -
  from assms have ex: "isArticleExists w keywordId" "isQuizExists w keywordId"
    by (simp_all add: isArticleExists_iff isQuizExists_iff)
  then have "generateContents env w keywordId = (Inl CONTENTS_ALREADY_EXISTS, w)"
    by (simp add: generateContents_def)
  moreover have "generateContents_v2 env w keywordId = (Inl CONTENTS_ALREADY_EXISTS, w)"
    if "keywordId \<in> kw_id ` set (keyword_table (db w))"
  proof -
    from that have "findKeyword w keywordId \<noteq> Inl KEYWORD_NOT_FOUND"
      by (simp add: findKeyword_absent)
    then obtain keywordInfo where "findKeyword w keywordId = Inr keywordInfo"
      by (auto simp: findKeyword_def split: option.splits)
    with ex show ?thesis by (simp add: generateContents_v2_def)
  qed
  ultimately show ?thesis by blast
qed

text \<open>The theorem in \<open>complete_world\<close>.\<close>

theorem C6_contents_already_exist_witness:
  "generateContents example_batch_env complete_world 1
     = (Inl CONTENTS_ALREADY_EXISTS, complete_world)
   \<and> generateContents_v2 example_batch_env complete_world 1
     = (Inl CONTENTS_ALREADY_EXISTS, complete_world)"
  using C6_contents_already_exist [of complete_world 1 example_batch_env]
  by (simp add: complete_world_def example_article_def example_quiz_def example_keyword_def)

lemma enumerate_map_arg:
  "enumerate n (map g xs) = map (\<lambda>(i, x). (i, g x)) (enumerate n xs)"
  by (induction xs arbitrary: n) simp_all

lemma those_length: "those xs = Some ys \<Longrightarrow> length ys = length xs"
  by (induction xs arbitrary: ys) (auto split: option.splits)

lemma call_all_quiz_prompts:
  "call_all (generateObj_quizzes env) (length (trace w)) (quiz_prompts env w keywordId)
     = those (map (\<lambda>(i, article).
                     generateObj_quizzes env (length (trace w) + i)
                       (createQuizzesPrompts env (art_content article)))
                (enumerate 0 (filter (\<lambda>a. art_keywordId a = keywordId) (article_table (db w)))))"
  by (simp add: call_all_def quiz_prompts_def keyword_articles_def enumerate_map_arg
      split_def comp_def)

text \<open>
  Claim C9. The keyword has an article and no quiz. Then \<^verbatim>\<open>generateContents\<close> is
  \<^verbatim>\<open>generateQuizzes\<close>: the calls it adds are the quiz generation calls, one for each
  article of the keyword and in their order, so none to the search client, to the
  crawler, to the ranking engine or for an article; the keyword and article tables are
  unchanged. When every generation call succeeds, the rows added to the quiz table are
  the quizzes generated for the articles of the keyword, each with the identifier of its
  article and its answer, written in rounds (the first quiz of every article, then the
  second, and so on); when a call is rejected the store is unchanged. The second version
  of the file does the same when the keyword is in the store.
\<close>

theorem C9_quiz_generation_only:
  assumes "\<exists>a\<in>set (article_table (db w)). art_keywordId a = keywordId"
    and "\<not> (\<exists>q\<in>set (quiz_table (db w)). \<exists>a\<in>set (article_table (db w)).
           art_id a = quiz_articleId q \<and> art_keywordId a = keywordId)"
  shows "generateContents env w keywordId = generateQuizzes env w keywordId
   \<and> trace (snd (generateContents env w keywordId))
       = trace w @ map (\<lambda>article. GenerateObjCall quizArraySchema
                                    (createQuizzesPrompts env (art_content article)))
                     (filter (\<lambda>a. art_keywordId a = keywordId) (article_table (db w)))
   \<and> keyword_table (db (snd (generateContents env w keywordId))) = keyword_table (db w)
   \<and> article_table (db (snd (generateContents env w keywordId))) = article_table (db w)
   \<and> (case those (map (\<lambda>(i, article).
                          generateObj_quizzes env (length (trace w) + i)
                            (createQuizzesPrompts env (art_content article)))
                     (enumerate 0
                        (filter (\<lambda>a. art_keywordId a = keywordId) (article_table (db w))))) of
         None \<Rightarrow>
           fst (generateContents env w keywordId) = Inl EXTERNAL_ERROR
           \<and> db (snd (generateContents env w keywordId)) = db w
       | Some generated \<Rightarrow>
           fst (generateContents env w keywordId) = Inr ()
           \<and> length generated
               = length (filter (\<lambda>a. art_keywordId a = keywordId) (article_table (db w)))
           \<and> quiz_table (db (snd (generateContents env w keywordId)))
               = quiz_table (db w)
                 @ concat (transpose
                     (map (\<lambda>(article, qs).
                             map (\<lambda>q. \<lparr>quiz_articleId = art_id article,
                                        quiz_answer = gq_answer q,
                                        quiz_rest = gq_rest q\<rparr>) qs)
                        (zip (filter (\<lambda>a. art_keywordId a = keywordId) (article_table (db w)))
                           generated))))
   \<and> (keywordId \<in> kw_id ` set (keyword_table (db w)) \<longrightarrow>
        generateContents_v2 env w keywordId = generateContents env w keywordId)"
proof -
  let ?arts = "filter (\<lambda>a. art_keywordId a = keywordId) (article_table (db w))"
  let ?calls = "those (map (\<lambda>(i, article).
                          generateObj_quizzes env (length (trace w) + i)
                            (createQuizzesPrompts env (art_content article)))
                     (enumerate 0 ?arts))"
  from assms have ex: "isArticleExists w keywordId" "\<not> isQuizExists w keywordId"
    by (simp_all add: isArticleExists_iff isQuizExists_iff)
  then have eq: "generateContents env w keywordId = generateQuizzes env w keywordId"
    by (simp add: generateContents_def)
  have tr: "trace (snd (generateQuizzes env w keywordId))
       = trace w @ map (\<lambda>article. GenerateObjCall quizArraySchema
                                    (createQuizzesPrompts env (art_content article))) ?arts"
    by (simp add: generateQuizzes_trace quiz_prompts_def keyword_articles_def comp_def)
  have len: "length generated = length ?arts" if "?calls = Some generated" for generated
    using those_length [OF that] by simp
  have outcome: "case ?calls of
         None \<Rightarrow>
           fst (generateQuizzes env w keywordId) = Inl EXTERNAL_ERROR
           \<and> db (snd (generateQuizzes env w keywordId)) = db w
       | Some generated \<Rightarrow>
           fst (generateQuizzes env w keywordId) = Inr ()
           \<and> length generated = length ?arts
           \<and> quiz_table (db (snd (generateQuizzes env w keywordId)))
               = quiz_table (db w)
                 @ concat (transpose
                     (map (\<lambda>(article, qs).
                             map (\<lambda>q. \<lparr>quiz_articleId = art_id article,
                                        quiz_answer = gq_answer q,
                                        quiz_rest = gq_rest q\<rparr>) qs)
                        (zip ?arts generated)))"
  proof (cases ?calls)
    case None
    then show ?thesis
      by (simp add: generateQuizzes_def Let_def call_all_quiz_prompts)
  next
    case (Some generated)
    with len [OF Some] show ?thesis
      by (simp add: generateQuizzes_def Let_def call_all_quiz_prompts quiz_rows_def
          keyword_articles_def)
  qed
  have v2: "generateContents_v2 env w keywordId = generateContents env w keywordId"
    if "keywordId \<in> kw_id ` set (keyword_table (db w))"
  proof -
    from that have "findKeyword w keywordId \<noteq> Inl KEYWORD_NOT_FOUND"
      by (simp add: findKeyword_absent)
    then obtain keywordInfo where "findKeyword w keywordId = Inr keywordInfo"
      by (auto simp: findKeyword_def split: option.splits)
    with ex show ?thesis by (simp add: generateContents_v2_def generateContents_def)
  qed
  from tr outcome v2 generateQuizzes_tables [of env w keywordId] show ?thesis
    unfolding eq by simp
qed

text \<open>
  The theorem in \<open>article_only_world\<close>, where the keyword has two articles: two
  generation calls, and the two quizzes of each article are stored, the first quiz of
  both articles before the second quiz of both.
\<close>

theorem C9_quiz_generation_only_witness:
  "generateContents example_batch_env article_only_world 1
     = (Inr (),
        \<lparr>db = \<lparr>keyword_table = [example_keyword],
               article_table = [example_article, second_article],
               quiz_table =
                 [\<lparr>quiz_articleId = 10, quiz_answer = js ''1'', quiz_rest = js ''Ca''\<rparr>,
                  \<lparr>quiz_articleId = 11, quiz_answer = js ''1'', quiz_rest = js ''Da''\<rparr>,
                  \<lparr>quiz_articleId = 10, quiz_answer = js ''2'', quiz_rest = js ''Cb''\<rparr>,
                  \<lparr>quiz_articleId = 11, quiz_answer = js ''2'', quiz_rest = js ''Db''\<rparr>]\<rparr>,
         trace = [GenerateObjCall quizArraySchema (js ''C''),
                  GenerateObjCall quizArraySchema (js ''D'')]\<rparr>)
   \<and> generateContents_v2 example_batch_env article_only_world 1
     = generateContents example_batch_env article_only_world 1"
proof -
  have arts: "filter (\<lambda>a. art_keywordId a = 1) (article_table (db article_only_world))
      = [example_article, second_article]"
    by (simp add: article_only_world_def example_article_def second_article_def)
  have calls: "those (map (\<lambda>(i, article).
                          generateObj_quizzes example_batch_env
                            (length (trace article_only_world) + i)
                            (createQuizzesPrompts example_batch_env (art_content article)))
                     (enumerate 0 [example_article, second_article]))
      = Some [\<lparr>gq_answer = js ''1'', gq_rest = js ''Ca''\<rparr>
                # [\<lparr>gq_answer = js ''2'', gq_rest = js ''Cb''\<rparr>],
              \<lparr>gq_answer = js ''1'', gq_rest = js ''Da''\<rparr>
                # [\<lparr>gq_answer = js ''2'', gq_rest = js ''Db''\<rparr>]]"
    by (simp add: example_batch_env_def example_article_def second_article_def js_def)
  have hyp1: "\<exists>a\<in>set (article_table (db article_only_world)). art_keywordId a = 1"
    by (simp add: article_only_world_def example_article_def)
  have hyp2: "\<not> (\<exists>q\<in>set (quiz_table (db article_only_world)).
      \<exists>a\<in>set (article_table (db article_only_world)).
        art_id a = quiz_articleId q \<and> art_keywordId a = 1)"
    by (simp add: article_only_world_def)
  have kw: "1 \<in> kw_id ` set (keyword_table (db article_only_world))"
    by (simp add: article_only_world_def example_keyword_def)
  note inst = C9_quiz_generation_only
    [OF hyp1 hyp2, of example_batch_env, unfolded arts calls, THEN conjunct2]
  from inst have res: "fst (generateContents example_batch_env article_only_world 1) = Inr ()"
    by simp
  from inst have tr: "trace (snd (generateContents example_batch_env article_only_world 1))
      = [GenerateObjCall quizArraySchema (js ''C''), GenerateObjCall quizArraySchema (js ''D'')]"
    by (simp add: article_only_world_def example_batch_env_def example_article_def
        second_article_def)
  from inst have kt: "keyword_table (db (snd (generateContents example_batch_env
      article_only_world 1))) = [example_keyword]"
    and at: "article_table (db (snd (generateContents example_batch_env
      article_only_world 1))) = [example_article, second_article]"
    by (simp_all add: article_only_world_def)
  from inst have qt: "quiz_table (db (snd (generateContents example_batch_env
      article_only_world 1)))
      = [\<lparr>quiz_articleId = 10, quiz_answer = js ''1'', quiz_rest = js ''Ca''\<rparr>,
         \<lparr>quiz_articleId = 11, quiz_answer = js ''1'', quiz_rest = js ''Da''\<rparr>,
         \<lparr>quiz_articleId = 10, quiz_answer = js ''2'', quiz_rest = js ''Cb''\<rparr>,
         \<lparr>quiz_articleId = 11, quiz_answer = js ''2'', quiz_rest = js ''Db''\<rparr>]"
    by (simp add: article_only_world_def example_article_def second_article_def)
  from inst kw have v2: "generateContents_v2 example_batch_env article_only_world 1
     = generateContents example_batch_env article_only_world 1"
    by simp
  obtain r w' where rw: "generateContents example_batch_env article_only_world 1 = (r, w')"
    by (cases "generateContents example_batch_env article_only_world 1")
  obtain d t where w': "w' = \<lparr>db = d, trace = t\<rparr>" by (cases w')
  obtain k a q where d: "d = \<lparr>keyword_table = k, article_table = a, quiz_table = q\<rparr>"
    by (cases d)
  from res tr kt at qt rw w' d
  have "generateContents example_batch_env article_only_world 1
     = (Inr (),
        \<lparr>db = \<lparr>keyword_table = [example_keyword],
               article_table = [example_article, second_article],
               quiz_table =
                 [\<lparr>quiz_articleId = 10, quiz_answer = js ''1'', quiz_rest = js ''Ca''\<rparr>,
                  \<lparr>quiz_articleId = 11, quiz_answer = js ''1'', quiz_rest = js ''Da''\<rparr>,
                  \<lparr>quiz_articleId = 10, quiz_answer = js ''2'', quiz_rest = js ''Cb''\<rparr>,
                  \<lparr>quiz_articleId = 11, quiz_answer = js ''2'', quiz_rest = js ''Db''\<rparr>]\<rparr>,
         trace = [GenerateObjCall quizArraySchema (js ''C''),
                  GenerateObjCall quizArraySchema (js ''D'')]\<rparr>)"
    by simp
  with v2 show ?thesis by simp
qed

end
